(* ===== verification/Prelude.thy ===== *)
theory Prelude
  imports Main "HOL-Library.Word" "HOL-Library.List_Lexorder"
begin

text \<open>
  Shared vocabulary of the voting-system model. C strings and SHA-256 digests are byte
  lists (\<open>byte = 8 word\<close>); a C string is held without its terminating NUL, and a
  buffer that the C code reads with \<open>strlen\<close> is cut at its first zero byte by
  \<open>c_str\<close>. \<open>strcmp\<close> is the C library comparison on unsigned bytes; its sign
  agrees with the lexicographic order of \<open>HOL-Library.List_Lexorder\<close> on NUL-free
  strings (\<open>strcmp_neg_iff\<close>, \<open>strcmp_eq_0_iff\<close>, \<open>strcmp_pos_iff\<close>), which is
  what lets the registry proofs use the library's sorted-list reasoning.
  The digest function is not defined here: every hashing operation of the model takes
  it as a parameter \<open>H :: hashfn\<close>, so that no property depends on what SHA-256
  computes beyond what its statement assumes.
\<close>

type_synonym byte = "8 word"
type_synonym digest = "byte list"
type_synonym hashfn = "byte list \<Rightarrow> digest"

text \<open>\<open>SHA256_DIGEST_LENGTH\<close> of OpenSSL, the fixed width of every digest field.\<close>

definition SHA256_DIGEST_LENGTH :: nat where
  "SHA256_DIGEST_LENGTH = 32"

named_theorems cstring_simps "facts on C strings used by the component proofs"

subsection \<open>C strings\<close>

definition cstring :: "byte list \<Rightarrow> bool" where
  "cstring s \<longleftrightarrow> list_all (\<lambda>c. c \<noteq> 0) s"

text \<open>What \<open>strlen\<close> and every \<open>str*\<close> routine see of a buffer: its bytes up to
  the first NUL.\<close>

definition c_str :: "byte list \<Rightarrow> byte list" where
  "c_str buf = takeWhile (\<lambda>c. c \<noteq> 0) buf"

definition c_strlen :: "byte list \<Rightarrow> nat" where
  "c_strlen buf = length (c_str buf)"

fun strcmp :: "byte list \<Rightarrow> byte list \<Rightarrow> int" where
  "strcmp [] [] = 0"
| "strcmp [] (b # _) = - uint b"
| "strcmp (a # _) [] = uint a"
| "strcmp (a # as) (b # bs) =
     (if a \<noteq> b then uint a - uint b else if a = 0 then 0 else strcmp as bs)"

lemma cstring_Nil [simp, cstring_simps]: "cstring []"
  by (simp add: cstring_def)

lemma cstring_Cons [simp, cstring_simps]: "cstring (c # s) \<longleftrightarrow> c \<noteq> 0 \<and> cstring s"
  by (simp add: cstring_def)

lemma cstring_append [simp, cstring_simps]: "cstring (s @ t) \<longleftrightarrow> cstring s \<and> cstring t"
  by (simp add: cstring_def)

lemma cstring_iff [cstring_simps]: "cstring s \<longleftrightarrow> 0 \<notin> set s"
  by (induction s) auto

lemma c_str_cstring [simp, cstring_simps]: "cstring s \<Longrightarrow> c_str (s @ t) = s @ c_str t"
  by (induction s) (auto simp: c_str_def)

lemma c_str_is_cstring [simp, cstring_simps]: "cstring (c_str buf)"
  by (induction buf) (auto simp: c_str_def)

lemma c_str_Nil [simp]: "c_str [] = []"
  by (simp add: c_str_def)

lemma c_str_zero [simp]: "c_str (0 # t) = []"
  by (simp add: c_str_def)

lemma c_str_of_cstring [simp, cstring_simps]: "cstring s \<Longrightarrow> c_str s = s"
  using c_str_cstring [of s "[]"] by simp

lemma cstring_take [simp, cstring_simps]: "cstring s \<Longrightarrow> cstring (take n s)"
  by (simp add: cstring_iff) (meson in_set_takeD)

lemma length_c_str: "length (c_str s) \<le> length s"
  by (simp add: c_str_def length_takeWhile_le)

lemma c_str_prefix: "\<exists>t. buf = c_str buf @ t"
  by (metis c_str_def takeWhile_dropWhile_id)

subsection \<open>\<open>strcmp\<close> against the lexicographic order\<close>

lemma strcmp_refl [simp]: "strcmp s s = 0"
  by (induction s) simp_all

lemma strcmp_eq_0_iff [cstring_simps]:
  "cstring a \<Longrightarrow> cstring b \<Longrightarrow> strcmp a b = 0 \<longleftrightarrow> a = b"
proof (induction a b rule: strcmp.induct)
  case (4 a as b bs)
  then show ?case by (auto simp: word_uint_eq_iff)
qed (auto simp: word_uint_eq_iff)

lemma strcmp_neg_iff [cstring_simps]:
  "cstring a \<Longrightarrow> cstring b \<Longrightarrow> strcmp a b < 0 \<longleftrightarrow> a < b"
proof (induction a b rule: strcmp.induct)
  case (2 b bs)
  then show ?case by (simp add: order_less_le uint_0_iff)
next
  case (4 a as b bs)
  then show ?case by (auto simp: word_less_def word_uint_eq_iff)
qed (simp_all add: not_less)

lemma strcmp_pos_iff [cstring_simps]:
  "cstring a \<Longrightarrow> cstring b \<Longrightarrow> 0 < strcmp a b \<longleftrightarrow> b < a"
proof (induction a b rule: strcmp.induct)
  case (3 a as)
  then show ?case by (simp add: order_less_le uint_0_iff)
next
  case (4 a as b bs)
  then show ?case by (auto simp: word_less_def word_uint_eq_iff)
qed simp_all

end
