(* ===== verification/Registry.thy ===== *)
theory Registry
  imports Prelude
begin

text \<open>
  The voter registry of \<open>src/avl.c\<close>: an AVL tree of \<open>VoterNode\<close>s keyed by the voter
  identifier, compared with \<open>strcmp\<close>. A node is the record \<open>voter_node\<close> (identifier,
  voted flag, stored height; the C fields are \<open>int\<close>, kept as \<open>int\<close> here because a
  snapshot file can hold any value) and the tree is the datatype \<open>vtree\<close>, \<open>Leaf\<close>
  being the NULL pointer. Every C function that rebuilds the tree returns the new tree;
  \<open>updateVotingStatus\<close> returns its C result code together with the tree it leaves.
  The theory proves that insertion keeps the AVL invariant (balance, stored heights,
  strictly sorted keys), that the registry refines a sorted association list of
  (identifier, voted) entries, and the three outcomes of \<open>updateVotingStatus\<close>.
\<close>

record voter_node =
  voterID :: "byte list"
  voted :: int
  height :: int

datatype vtree = Leaf | Node vtree voter_node vtree

subsection \<open>Operations (\<open>avl.c\<close>)\<close>

definition createVoterNode :: "byte list \<Rightarrow> vtree" where
  "createVoterNode vid = Node Leaf \<lparr>voterID = vid, voted = 0, height = 1\<rparr> Leaf"

fun calculateNodeHeight :: "vtree \<Rightarrow> int" where
  "calculateNodeHeight Leaf = 0"
| "calculateNodeHeight (Node _ v _) = height v"

text \<open>The rotations dereference the child they lift; on a NULL child the C code
  crashes. Insertion calls them only on nodes whose lifted child exists
  (\<open>balanceAfterInsert\<close>), so the catch-all equations are never reached there.\<close>

fun performRightRotation :: "vtree \<Rightarrow> vtree" where
  "performRightRotation (Node (Node a y b) x c) =
     (let x' = x\<lparr>height := max (calculateNodeHeight b) (calculateNodeHeight c) + 1\<rparr>;
          y' = y\<lparr>height := max (calculateNodeHeight a) (height x') + 1\<rparr>
      in Node a y' (Node b x' c))"
| "performRightRotation t = t"

fun performLeftRotation :: "vtree \<Rightarrow> vtree" where
  "performLeftRotation (Node a x (Node b y c)) =
     (let x' = x\<lparr>height := max (calculateNodeHeight a) (calculateNodeHeight b) + 1\<rparr>;
          y' = y\<lparr>height := max (height x') (calculateNodeHeight c) + 1\<rparr>
      in Node (Node a x' b) y' c)"
| "performLeftRotation t = t"

fun getNodeBalance :: "vtree \<Rightarrow> int" where
  "getNodeBalance Leaf = 0"
| "getNodeBalance (Node l _ r) = calculateNodeHeight l - calculateNodeHeight r"

text \<open>\<open>node->left->voterID\<close>: the key of a child (NULL is unreachable where it is read).\<close>

fun keyOf :: "vtree \<Rightarrow> byte list" where
  "keyOf Leaf = []"
| "keyOf (Node _ v _) = voterID v"

text \<open>The tail of \<open>insertVoterNode\<close> after the recursive call: recompute the height,
  then the four rotation cases, chosen by comparing the inserted key with the key of
  the child on the heavy side.\<close>

fun balanceAfterInsert :: "byte list \<Rightarrow> vtree \<Rightarrow> vtree" where
  "balanceAfterInsert x Leaf = Leaf"
| "balanceAfterInsert x (Node l v r) =
     (let v' = v\<lparr>height := 1 + max (calculateNodeHeight l) (calculateNodeHeight r)\<rparr>;
          n = Node l v' r;
          b = getNodeBalance n
      in if 1 < b \<and> strcmp x (keyOf l) < 0 then performRightRotation n
         else if b < -1 \<and> 0 < strcmp x (keyOf r) then performLeftRotation n
         else if 1 < b \<and> 0 < strcmp x (keyOf l) then
           performRightRotation (Node (performLeftRotation l) v' r)
         else if b < -1 \<and> strcmp x (keyOf r) < 0 then
           performLeftRotation (Node l v' (performRightRotation r))
         else n)"

fun insertVoterNode :: "vtree \<Rightarrow> byte list \<Rightarrow> vtree" where
  "insertVoterNode Leaf x = createVoterNode x"
| "insertVoterNode (Node l v r) x =
     (if strcmp x (voterID v) < 0 then balanceAfterInsert x (Node (insertVoterNode l x) v r)
      else if 0 < strcmp x (voterID v) then balanceAfterInsert x (Node l v (insertVoterNode r x))
      else Node l v r)"

text \<open>\<open>updateVotingStatus\<close>: \<open>-1\<close> not found, \<open>1\<close> already voted, \<open>0\<close> marked now.\<close>

fun updateVotingStatus :: "vtree \<Rightarrow> byte list \<Rightarrow> int \<times> vtree" where
  "updateVotingStatus Leaf x = (-1, Leaf)"
| "updateVotingStatus (Node l v r) x =
     (if strcmp x (voterID v) = 0 then
        (if voted v = 1 then (1, Node l v r) else (0, Node l (v\<lparr>voted := 1\<rparr>) r))
      else if strcmp x (voterID v) < 0 then
        (let (res, l') = updateVotingStatus l x in (res, Node l' v r))
      else (let (res, r') = updateVotingStatus r x in (res, Node l v r')))"

fun findVoter :: "vtree \<Rightarrow> byte list \<Rightarrow> voter_node option" where
  "findVoter Leaf x = None"
| "findVoter (Node l v r) x =
     (let cmp = strcmp x (voterID v)
      in if cmp = 0 then Some v else if cmp < 0 then findVoter l x else findVoter r x)"

fun inorder :: "vtree \<Rightarrow> voter_node list" where
  "inorder Leaf = []"
| "inorder (Node l v r) = inorder l @ v # inorder r"

text \<open>\<open>displayVoterStatus\<close> prints the (identifier, voted) pairs in order: the
  registry's observable contents, and the abstraction function of the refinement.\<close>

definition displayVoterStatus :: "vtree \<Rightarrow> (byte list \<times> int) list" where
  "displayVoterStatus t = map (\<lambda>v. (voterID v, voted v)) (inorder t)"

text \<open>The \<open>AVLTree\<close> wrapper of \<open>insertVoter\<close> and \<open>updateVoting\<close>: the root.
  \<open>insertVoter\<close> also rewrites the snapshot file (\<open>Registry_Snapshot\<close>).\<close>

definition insertVoter :: "vtree \<Rightarrow> byte list \<Rightarrow> vtree" where
  "insertVoter t x = insertVoterNode t x"

definition updateVoting :: "vtree \<Rightarrow> byte list \<Rightarrow> int \<times> vtree" where
  "updateVoting t x = updateVotingStatus t x"


subsection \<open>Abstraction and invariant\<close>

text \<open>The real height of a tree, against which the stored \<open>height\<close> fields are
  checked, and the AVL invariant of \<open>spec.md\<close> section 3: balanced, stored heights
  correct, in-order keys strictly increasing, every key a NUL-free C string.\<close>

fun hgt :: "vtree \<Rightarrow> nat" where
  "hgt Leaf = 0"
| "hgt (Node l _ r) = max (hgt l) (hgt r) + 1"

fun avl :: "vtree \<Rightarrow> bool" where
  "avl Leaf = True"
| "avl (Node l v r) =
     (\<bar>int (hgt l) - int (hgt r)\<bar> \<le> 1 \<and> height v = int (hgt (Node l v r)) \<and> avl l \<and> avl r)"

definition keys :: "vtree \<Rightarrow> byte list list" where
  "keys t = map voterID (inorder t)"

definition registry_inv :: "vtree \<Rightarrow> bool" where
  "registry_inv t \<longleftrightarrow> avl t \<and> sorted_wrt (<) (keys t) \<and> list_all cstring (keys t)"

text \<open>The registry as an abstract map from identifier to voted flag, and the
  operations the spec promises on it: insertion is a no-op on a present key and adds
  an unvoted entry otherwise; marking answers \<open>-1\<close> (NotFound), \<open>1\<close>
  (AlreadyVoted) or \<open>0\<close> (MarkedNow) and sets the flag only in the last case.\<close>

definition regmap :: "vtree \<Rightarrow> byte list \<rightharpoonup> int" where
  "regmap t = map_of (displayVoterStatus t)"

definition reg_insert_spec :: "(byte list \<rightharpoonup> int) \<Rightarrow> byte list \<Rightarrow> (byte list \<rightharpoonup> int)" where
  "reg_insert_spec m x = (if x \<in> dom m then m else m(x \<mapsto> 0))"

definition reg_mark_spec :: "(byte list \<rightharpoonup> int) \<Rightarrow> byte list \<Rightarrow> int \<times> (byte list \<rightharpoonup> int)" where
  "reg_mark_spec m x =
     (case m x of None \<Rightarrow> (-1, m) | Some b \<Rightarrow> if b = 1 then (1, m) else (0, m(x \<mapsto> 1)))"

text \<open>The same operations on the sorted entry list that \<open>displayVoterStatus\<close> prints.\<close>

fun ins_entry :: "byte list \<Rightarrow> (byte list \<times> int) list \<Rightarrow> (byte list \<times> int) list" where
  "ins_entry x [] = [(x, 0)]"
| "ins_entry x ((k, b) # es) =
     (if x < k then (x, 0) # (k, b) # es else if x = k then (k, b) # es else (k, b) # ins_entry x es)"

definition mark_entry :: "byte list \<Rightarrow> byte list \<times> int \<Rightarrow> byte list \<times> int" where
  "mark_entry x e = (if fst e = x then (fst e, 1) else e)"

text \<open>Where an insertion that made a subtree taller went: into the heavier child, on
  the side the key compares to, or it is the new leaf itself. The rotation cases of
  \<open>balanceAfterInsert\<close> compare keys instead of child balances; this is what makes
  that choice right.\<close>

definition grows_at :: "byte list \<Rightarrow> vtree \<Rightarrow> bool" where
  "grows_at x t = (case t of Leaf \<Rightarrow> False | Node l v r \<Rightarrow>
     (x < voterID v \<and> hgt l = hgt r + 1) \<or> (voterID v < x \<and> hgt r = hgt l + 1) \<or>
     (x = voterID v \<and> l = Leaf \<and> r = Leaf))"

subsection \<open>Structural lemmas\<close>

named_theorems registry_simps "rewrite rules of the registry abstraction"

lemma keys_Leaf [simp, registry_simps]: "keys Leaf = []"
  by (simp add: keys_def)

lemma keys_Node [simp, registry_simps]: "keys (Node l v r) = keys l @ voterID v # keys r"
  by (simp add: keys_def)

lemma display_Leaf [simp, registry_simps]: "displayVoterStatus Leaf = []"
  by (simp add: displayVoterStatus_def)

lemma display_Node [simp, registry_simps]:
  "displayVoterStatus (Node l v r) = displayVoterStatus l @ (voterID v, voted v) # displayVoterStatus r"
  by (simp add: displayVoterStatus_def)

lemma map_fst_display: "map fst (displayVoterStatus t) = keys t"
  by (induction t) auto

lemma set_keys_display: "fst ` set (displayVoterStatus t) = set (keys t)"
  by (metis list.set_map map_fst_display)

lemma avl_height [simp]: "avl t \<Longrightarrow> calculateNodeHeight t = int (hgt t)"
  by (cases t) auto

lemma display_rotR [simp]: "displayVoterStatus (performRightRotation t) = displayVoterStatus t"
  by (induction t rule: performRightRotation.induct) (simp_all add: Let_def)

lemma display_rotL [simp]: "displayVoterStatus (performLeftRotation t) = displayVoterStatus t"
  by (induction t rule: performLeftRotation.induct) (simp_all add: Let_def)

lemma display_balance [simp]: "displayVoterStatus (balanceAfterInsert x t) = displayVoterStatus t"
  by (cases "(x, t)" rule: balanceAfterInsert.cases) (simp_all add: Let_def)

declare balanceAfterInsert.simps(2) [simp del]

lemma cstring_keyOf: "list_all cstring (keys t) \<Longrightarrow> cstring (keyOf t)"
  by (cases t) auto

lemma registry_inv_Node:
  "registry_inv (Node l v r) \<longleftrightarrow>
   registry_inv l \<and> registry_inv r \<and> cstring (voterID v) \<and>
   (\<forall>k \<in> set (keys l). k < voterID v) \<and> (\<forall>k \<in> set (keys r). voterID v < k) \<and>
   \<bar>int (hgt l) - int (hgt r)\<bar> \<le> 1 \<and> height v = int (hgt (Node l v r))"
proof -
  have tr: "\<forall>a \<in> set (keys l). \<forall>b \<in> set (keys r). a < b"
    if "\<forall>k \<in> set (keys l). k < voterID v" "\<forall>k \<in> set (keys r). voterID v < k"
    using that by (meson order.strict_trans)
  show ?thesis
    unfolding registry_inv_def using tr by (simp add: sorted_wrt_append) blast
qed

text \<open>The children of a node of a valid registry, with the keys of each side bounded
  by the node's key: the facts every search-path proof starts from.\<close>

lemma registry_inv_NodeD:
  assumes "registry_inv (Node l v r)"
  shows "registry_inv l" "registry_inv r" "cstring (voterID v)"
    "\<forall>k \<in> fst ` set (displayVoterStatus l). k < voterID v"
    "\<forall>k \<in> fst ` set (displayVoterStatus r). voterID v < k"
  using assms by (simp_all add: registry_inv_Node set_keys_display)

lemma map_of_split:
  fixes a :: "'a::linorder"
  assumes "\<forall>k \<in> fst ` set xs. k < a" "\<forall>k \<in> fst ` set ys. a < k"
  shows "map_of (xs @ (a, b) # ys) x =
    (if x < a then map_of xs x else if x = a then Some b else map_of ys x)"
proof -
  have n1: "a \<le> x \<Longrightarrow> map_of xs x = None"
    using assms(1) by (meson leD map_of_eq_None_iff)
  have n2: "x \<le> a \<Longrightarrow> map_of ys x = None"
    using assms(2) by (meson leD map_of_eq_None_iff)
  show ?thesis using n1 n2 by (auto simp: map_add_def split: option.split)
qed


subsection \<open>Insertion: the entry list\<close>

lemma ins_entry_append:
  "\<forall>k \<in> set (map fst xs). k < a \<Longrightarrow> sorted_wrt (<) (map fst xs) \<Longrightarrow>
   ins_entry x (xs @ (a, b) # ys) =
     (if x < a then ins_entry x xs @ (a, b) # ys else xs @ ins_entry x ((a, b) # ys))"
  by (induction xs rule: ins_entry.induct) auto

lemma set_ins_entry: "fst ` set (ins_entry x es) = insert x (fst ` set es)"
  by (induction es rule: ins_entry.induct) auto

lemma sorted_ins_entry:
  "sorted_wrt (<) (map fst es) \<Longrightarrow> sorted_wrt (<) (map fst (ins_entry x es))"
proof (induction es rule: ins_entry.induct)
  case (2 x k b es)
  then show ?case using set_ins_entry [of x es] by force
qed simp

lemma map_of_ins_entry:
  "sorted_wrt (<) (map fst es) \<Longrightarrow>
   map_of (ins_entry x es) = (if x \<in> fst ` set es then map_of es else (map_of es)(x \<mapsto> 0))"
proof (induction es rule: ins_entry.induct)
  case (2 x k b es)
  have "x < k \<Longrightarrow> x \<notin> fst ` set es" using "2.prems" by force
  with 2 show ?case by (auto simp: fun_upd_twist)
qed simp

lemma display_insert:
  "sorted_wrt (<) (keys t) \<Longrightarrow> list_all cstring (keys t) \<Longrightarrow> cstring x \<Longrightarrow>
   displayVoterStatus (insertVoterNode t x) = ins_entry x (displayVoterStatus t)"
proof (induction t)
  case Leaf
  then show ?case by (simp add: createVoterNode_def)
next
  case (Node l v r)
  have cs: "cstring (voterID v)" using Node.prems by simp
  have lt: "\<forall>k \<in> set (map fst (displayVoterStatus l)). k < voterID v"
    and sl: "sorted_wrt (<) (map fst (displayVoterStatus l))"
    using Node.prems(1) by (simp_all add: map_fst_display sorted_wrt_append)
  show ?case
    using Node lt sl cs
    by (auto simp: ins_entry_append strcmp_neg_iff strcmp_pos_iff sorted_wrt_append)
qed

lemma keys_insert_set:
  assumes "sorted_wrt (<) (keys t)" "list_all cstring (keys t)" "cstring x"
  shows "set (keys (insertVoterNode t x)) = insert x (set (keys t))"
  using display_insert [OF assms] set_ins_entry [of x "displayVoterStatus t"]
  by (simp add: set_keys_display [symmetric])

lemma keys_insert_cstring:
  "sorted_wrt (<) (keys t) \<Longrightarrow> list_all cstring (keys t) \<Longrightarrow> cstring x \<Longrightarrow>
   list_all cstring (keys (insertVoterNode t x))"
  by (simp add: list_all_iff keys_insert_set)

lemma keys_insert_sorted:
  "sorted_wrt (<) (keys t) \<Longrightarrow> list_all cstring (keys t) \<Longrightarrow> cstring x \<Longrightarrow>
   sorted_wrt (<) (keys (insertVoterNode t x))"
  by (metis display_insert map_fst_display sorted_ins_entry)

subsection \<open>Insertion: balance\<close>

text \<open>The four rotation cases on the shapes insertion produces, after the heavy
  child grew by one. The single rotations lift a child that is taller on the outer
  side, the double rotations one that is taller on the inner side.\<close>

lemma rotR_single:
  "avl a \<Longrightarrow> avl c \<Longrightarrow> avl r \<Longrightarrow> hgt a = hgt r + 1 \<Longrightarrow> hgt c = hgt r \<Longrightarrow>
   avl (performRightRotation (Node (Node a y c) v r)) \<and>
   hgt (performRightRotation (Node (Node a y c) v r)) = hgt r + 2"
  by (simp add: Let_def max_def)

lemma rotL_single:
  "avl a \<Longrightarrow> avl c \<Longrightarrow> avl l \<Longrightarrow> hgt c = hgt l + 1 \<Longrightarrow> hgt a = hgt l \<Longrightarrow>
   avl (performLeftRotation (Node l v (Node a y c))) \<and>
   hgt (performLeftRotation (Node l v (Node a y c))) = hgt l + 2"
  by (simp add: Let_def max_def)

lemma rotR_double:
  "avl a \<Longrightarrow> avl (Node c1 z c2) \<Longrightarrow> avl r \<Longrightarrow> hgt a = hgt r \<Longrightarrow>
   hgt (Node c1 z c2) = hgt r + 1 \<Longrightarrow>
   avl (performRightRotation (Node (performLeftRotation (Node a y (Node c1 z c2))) v r)) \<and>
   hgt (performRightRotation (Node (performLeftRotation (Node a y (Node c1 z c2))) v r)) = hgt r + 2"
  by (auto simp: Let_def max_def abs_if split: if_splits)

lemma rotL_double:
  "avl c \<Longrightarrow> avl (Node a1 z a2) \<Longrightarrow> avl l \<Longrightarrow> hgt c = hgt l \<Longrightarrow>
   hgt (Node a1 z a2) = hgt l + 1 \<Longrightarrow>
   avl (performLeftRotation (Node l v (performRightRotation (Node (Node a1 z a2) y c)))) \<and>
   hgt (performLeftRotation (Node l v (performRightRotation (Node (Node a1 z a2) y c)))) = hgt l + 2"
  by (auto simp: Let_def max_def abs_if split: if_splits)

lemma balance_no_rotation:
  "avl l \<Longrightarrow> avl r \<Longrightarrow> \<bar>int (hgt l) - int (hgt r)\<bar> \<le> 1 \<Longrightarrow>
   balanceAfterInsert x (Node l v r) = Node l (v\<lparr>height := int (hgt (Node l v r))\<rparr>) r"
  by (auto simp: balanceAfterInsert.simps(2) Let_def)

lemma balance_left:
  assumes l': "avl l'" and t: "avl (Node l v r)" and xv: "x < voterID v"
    and grow: "hgt l' = hgt l \<or> hgt l' = hgt l + 1 \<and> grows_at x l'"
    and cs: "cstring x" "cstring (keyOf l')"
  shows "avl (balanceAfterInsert x (Node l' v r)) \<and>
    (hgt (balanceAfterInsert x (Node l' v r)) = hgt (Node l v r) \<or>
     hgt (balanceAfterInsert x (Node l' v r)) = hgt (Node l v r) + 1 \<and>
     grows_at x (balanceAfterInsert x (Node l' v r)))"
proof (cases "hgt l' = hgt l + 1 \<and> hgt l = hgt r + 1")
  case False
  with grow t l' show ?thesis
    by (auto simp: balance_no_rotation grows_at_def xv)
next
  case True
  with grow obtain a y c where l'_eq: "l' = Node a y c" and g: "grows_at x (Node a y c)"
    by (cases l') (auto simp: grows_at_def)
  have bal: "balanceAfterInsert x (Node l' v r) =
     (let v' = v\<lparr>height := int (hgt l' + 1)\<rparr>
      in if strcmp x (voterID y) < 0 then performRightRotation (Node l' v' r)
         else if 0 < strcmp x (voterID y) then performRightRotation (Node (performLeftRotation l') v' r)
         else Node l' v' r)"
    using True t l' l'_eq by (auto simp: balanceAfterInsert.simps(2) Let_def)
  have ky: "cstring (voterID y)" using cs l'_eq by simp
  consider (LL) "x < voterID y" "hgt a = hgt c + 1" | (LR) "voterID y < x" "hgt c = hgt a + 1"
    | (leaf) "a = Leaf" "c = Leaf"
    using g by (auto simp: grows_at_def)
  then show ?thesis
  proof cases
    case LL
    then show ?thesis unfolding bal using True t l' l'_eq rotR_single [of a c r y]
      by (simp add: Let_def strcmp_neg_iff [OF cs(1) ky])
  next
    case LR
    then obtain c1 z c2 where c: "c = Node c1 z c2" by (cases c) auto
    have "\<not> strcmp x (voterID y) < 0" "0 < strcmp x (voterID y)"
      using LR by (simp_all add: strcmp_neg_iff [OF cs(1) ky] strcmp_pos_iff [OF cs(1) ky])
    then show ?thesis unfolding bal using True t l' l'_eq LR c rotR_double [of a c1 z c2 r y]
      by (simp add: Let_def del: performRightRotation.simps performLeftRotation.simps)
  next
    case leaf
    with True l'_eq show ?thesis by auto
  qed
qed

lemma balance_right:
  assumes r': "avl r'" and t: "avl (Node l v r)" and xv: "voterID v < x"
    and grow: "hgt r' = hgt r \<or> hgt r' = hgt r + 1 \<and> grows_at x r'"
    and cs: "cstring x" "cstring (keyOf r')"
  shows "avl (balanceAfterInsert x (Node l v r')) \<and>
    (hgt (balanceAfterInsert x (Node l v r')) = hgt (Node l v r) \<or>
     hgt (balanceAfterInsert x (Node l v r')) = hgt (Node l v r) + 1 \<and>
     grows_at x (balanceAfterInsert x (Node l v r')))"
proof (cases "hgt r' = hgt r + 1 \<and> hgt r = hgt l + 1")
  case False
  with grow t r' show ?thesis
    by (auto simp: balance_no_rotation grows_at_def xv)
next
  case True
  with grow obtain a y c where r'_eq: "r' = Node a y c" and g: "grows_at x (Node a y c)"
    by (cases r') (auto simp: grows_at_def)
  have bal: "balanceAfterInsert x (Node l v r') =
     (let v' = v\<lparr>height := int (hgt r' + 1)\<rparr>
      in if 0 < strcmp x (voterID y) then performLeftRotation (Node l v' r')
         else if strcmp x (voterID y) < 0 then performLeftRotation (Node l v' (performRightRotation r'))
         else Node l v' r')"
    using True t r' r'_eq by (auto simp: balanceAfterInsert.simps(2) Let_def)
  have ky: "cstring (voterID y)" using cs r'_eq by simp
  consider (RL) "x < voterID y" "hgt a = hgt c + 1" | (RR) "voterID y < x" "hgt c = hgt a + 1"
    | (leaf) "a = Leaf" "c = Leaf"
    using g by (auto simp: grows_at_def)
  then show ?thesis
  proof cases
    case RR
    then show ?thesis unfolding bal using True t r' r'_eq rotL_single [of a c l y]
      by (simp add: Let_def strcmp_pos_iff [OF cs(1) ky])
  next
    case RL
    then obtain a1 z a2 where a: "a = Node a1 z a2" by (cases a) auto
    have "\<not> 0 < strcmp x (voterID y)" "strcmp x (voterID y) < 0"
      using RL by (simp_all add: strcmp_neg_iff [OF cs(1) ky] strcmp_pos_iff [OF cs(1) ky])
    then show ?thesis unfolding bal using True t r' r'_eq RL a rotL_double [of c a1 z a2 l]
      by (simp add: Let_def del: performRightRotation.simps performLeftRotation.simps)
  next
    case leaf
    with True r'_eq show ?thesis by auto
  qed
qed

lemma avl_insert_grows:
  "registry_inv t \<Longrightarrow> cstring x \<Longrightarrow>
   avl (insertVoterNode t x) \<and>
   (hgt (insertVoterNode t x) = hgt t \<or>
    hgt (insertVoterNode t x) = hgt t + 1 \<and> grows_at x (insertVoterNode t x))"
proof (induction t)
  case Leaf
  then show ?case by (simp add: createVoterNode_def grows_at_def)
next
  case (Node l v r)
  then have invs: "registry_inv l" "registry_inv r" and t: "avl (Node l v r)"
    and cs: "cstring (voterID v)"
    by (auto simp: registry_inv_def sorted_wrt_append)
  have kl: "cstring (keyOf (insertVoterNode l x))" "cstring (keyOf (insertVoterNode r x))"
    using invs Node.prems(2) by (auto intro: cstring_keyOf keys_insert_cstring simp: registry_inv_def)
  consider (lt) "x < voterID v" | (gt) "voterID v < x" | (eq) "x = voterID v"
    using less_linear by blast
  then show ?case
  proof cases
    case lt
    then show ?thesis
      using balance_left [OF _ t lt _ Node.prems(2) kl(1)] Node.IH(1) [OF invs(1) Node.prems(2)]
      by (simp add: strcmp_neg_iff [OF Node.prems(2) cs])
  next
    case gt
    then have "\<not> x < voterID v" by auto
    with gt show ?thesis
      using balance_right [OF _ t gt _ Node.prems(2) kl(2)] Node.IH(2) [OF invs(2) Node.prems(2)]
      by (simp add: strcmp_neg_iff [OF Node.prems(2) cs] strcmp_pos_iff [OF Node.prems(2) cs])
  next
    case eq
    with t show ?thesis by (simp add: strcmp_eq_0_iff [OF Node.prems(2) cs])
  qed
qed


subsection \<open>Search and marking along the search path\<close>

lemma findVoter_regmap:
  "registry_inv t \<Longrightarrow> cstring x \<Longrightarrow> map_option voted (findVoter t x) = regmap t x"
proof (induction t)
  case Leaf
  then show ?case by (simp add: regmap_def)
next
  case (Node l v r)
  note i = registry_inv_NodeD [OF Node.prems(1)]
  consider "x < voterID v" | "voterID v < x" | "x = voterID v" using less_linear by blast
  then show ?case
  proof cases
    case 1
    then have "x \<noteq> voterID v" by auto
    with 1 show ?thesis using Node.IH(1) i(1,3) Node.prems(2)
      by (simp add: regmap_def strcmp_eq_0_iff strcmp_neg_iff map_of_split [OF i(4,5)]
          del: map_of_append)
  next
    case 2
    then have "\<not> x < voterID v" "x \<noteq> voterID v" by auto
    with 2 show ?thesis using Node.IH(2) i(2,3) Node.prems(2)
      by (simp add: regmap_def strcmp_eq_0_iff strcmp_neg_iff map_of_split [OF i(4,5)]
          del: map_of_append)
  next
    case 3
    then show ?thesis
      by (simp add: regmap_def map_of_split [OF i(4,5)] del: map_of_append)
  qed
qed

lemma findVoter_key:
  "findVoter t x = Some v \<Longrightarrow> registry_inv t \<Longrightarrow> cstring x \<Longrightarrow> voterID v = x"
proof (induction t)
  case (Node l w r)
  then show ?case
    by (auto simp: registry_inv_Node Let_def strcmp_eq_0_iff split: if_splits)
qed simp

lemma update_shape:
  "keys (snd (updateVotingStatus t x)) = keys t \<and> hgt (snd (updateVotingStatus t x)) = hgt t \<and>
   avl (snd (updateVotingStatus t x)) = avl t"
  by (induction t) (auto simp: Let_def split: prod.split)

lemma mark_entry_Pair [simp]:
  "mark_entry x (k, b) = (if k = x then (k, 1) else (k, b))"
  by (simp add: mark_entry_def)

lemma update_display:
  "registry_inv t \<Longrightarrow> cstring x \<Longrightarrow>
   displayVoterStatus (snd (updateVotingStatus t x)) = map (mark_entry x) (displayVoterStatus t) \<and>
   fst (updateVotingStatus t x) = (case regmap t x of None \<Rightarrow> -1 | Some b \<Rightarrow> if b = 1 then 1 else 0)"
proof (induction t)
  case Leaf
  then show ?case by (simp add: regmap_def)
next
  case (Node l v r)
  note i = registry_inv_NodeD [OF Node.prems(1)]
  have ml: "map (mark_entry x) (displayVoterStatus l) = displayVoterStatus l" if "voterID v \<le> x"
  proof (rule map_idI)
    fix e assume "e \<in> set (displayVoterStatus l)"
    then have "fst e < voterID v" using i(4) by auto
    with that show "mark_entry x e = e" by (auto simp: mark_entry_def)
  qed
  have mr: "map (mark_entry x) (displayVoterStatus r) = displayVoterStatus r" if "x \<le> voterID v"
  proof (rule map_idI)
    fix e assume "e \<in> set (displayVoterStatus r)"
    then have "voterID v < fst e" using i(5) by auto
    with that show "mark_entry x e = e" by (auto simp: mark_entry_def)
  qed
  consider "x < voterID v" | "voterID v < x" | "x = voterID v" using less_linear by blast
  then show ?case
  proof cases
    case 1
    then have "x \<noteq> voterID v" "x \<le> voterID v" by auto
    with 1 show ?thesis using Node.IH(1) i(1,3) Node.prems(2) mr
      by (auto simp: regmap_def strcmp_eq_0_iff strcmp_neg_iff map_of_split [OF i(4,5)]
          split: prod.split simp del: map_of_append)
  next
    case 2
    then have "\<not> x < voterID v" "x \<noteq> voterID v" "voterID v \<le> x" by auto
    with 2 show ?thesis using Node.IH(2) i(2,3) Node.prems(2) ml
      by (auto simp: regmap_def strcmp_eq_0_iff strcmp_neg_iff map_of_split [OF i(4,5)]
          split: prod.split simp del: map_of_append)
  next
    case 3
    then show ?thesis using ml mr
      by (simp add: regmap_def map_of_split [OF i(4,5)] del: map_of_append)
  qed
qed

lemma map_of_mark_entry:
  "map_of (map (mark_entry x) es) = (case map_of es x of None \<Rightarrow> map_of es | Some _ \<Rightarrow> (map_of es)(x \<mapsto> 1))"
  by (induction es) (auto simp: mark_entry_def fun_upd_twist split: option.splits)

lemma update_regmap:
  assumes "registry_inv t" "cstring x"
  shows "(case updateVotingStatus t x of (res, t') \<Rightarrow> (res, regmap t')) = reg_mark_spec (regmap t) x"
proof -
  obtain res t' where u: "updateVotingStatus t x = (res, t')" by fastforce
  have d: "displayVoterStatus t' = map (mark_entry x) (displayVoterStatus t)"
    and r: "res = (case regmap t x of None \<Rightarrow> -1 | Some b \<Rightarrow> if b = 1 then 1 else 0)"
    using update_display [OF assms] u by simp_all
  have "regmap t' = (case regmap t x of None \<Rightarrow> regmap t | Some _ \<Rightarrow> (regmap t)(x \<mapsto> 1))"
    unfolding regmap_def d by (rule map_of_mark_entry)
  with r u show ?thesis
    by (auto simp: reg_mark_spec_def split: option.splits)
qed

lemma update_unchanged:
  "fst (updateVotingStatus t x) \<noteq> 0 \<Longrightarrow> snd (updateVotingStatus t x) = t"
  by (induction t) (auto simp: Let_def split: prod.split if_splits)


lemma insert_inv:
  "registry_inv t \<Longrightarrow> cstring x \<Longrightarrow> registry_inv (insertVoterNode t x)"
  using avl_insert_grows keys_insert_sorted keys_insert_cstring
  by (simp add: registry_inv_def)

lemma insert_regmap:
  "registry_inv t \<Longrightarrow> cstring x \<Longrightarrow> regmap (insertVoterNode t x) = reg_insert_spec (regmap t) x"
proof -
  assume a: "registry_inv t" "cstring x"
  then have s: "sorted_wrt (<) (map fst (displayVoterStatus t))"
    by (simp add: registry_inv_def map_fst_display)
  have "dom (regmap t) = fst ` set (displayVoterStatus t)"
    by (simp add: regmap_def dom_map_of_conv_image_fst)
  with a s show ?thesis
    by (simp add: regmap_def reg_insert_spec_def display_insert map_of_ins_entry registry_inv_def)
qed

lemma update_inv:
  "registry_inv t \<Longrightarrow> registry_inv (snd (updateVotingStatus t x))"
  using update_shape [of t x] by (simp add: registry_inv_def)

lemma insert_present:
  "registry_inv t \<Longrightarrow> x \<in> set (keys t) \<Longrightarrow> insertVoterNode t x = t"
proof (induction t)
  case (Node l v r)
  note i = registry_inv_NodeD [OF Node.prems(1)]
  have cx: "cstring x" using Node.prems by (auto simp: registry_inv_def list_all_iff)
  have b: "\<bar>int (hgt l) - int (hgt r)\<bar> \<le> 1" "avl l" "avl r" "height v = int (hgt (Node l v r))"
    using Node.prems(1) by (simp_all add: registry_inv_def)
  consider "x < voterID v" | "voterID v < x" | "x = voterID v" using less_linear by blast
  then show ?case
  proof cases
    case 1
    then have "x \<in> set (keys l)" using Node.prems(2) i(5) by (auto simp: set_keys_display)
    with 1 show ?thesis using Node.IH(1) i(1,3) cx b
      by (simp add: strcmp_neg_iff balance_no_rotation)
  next
    case 2
    then have "x \<in> set (keys r)" "\<not> x < voterID v" using Node.prems(2) i(4) by (auto simp: set_keys_display)
    with 2 show ?thesis using Node.IH(2) i(2,3) cx b
      by (simp add: strcmp_neg_iff strcmp_pos_iff balance_no_rotation)
  qed simp
qed simp

subsection \<open>Properties of the registry\<close>

text \<open>C3. Inserting a NUL-free identifier into a valid registry yields a valid
  registry: every node balanced, every stored height the real height, keys in
  strictly increasing order (\<open>spec.md\<close> section 8, first property).\<close>

theorem registry_inv_insert:
  "registry_inv t \<Longrightarrow> cstring x \<Longrightarrow> registry_inv (insertVoterNode t x)"
  by (rule insert_inv)

theorem registry_inv_insert_witness:
  "registry_inv (insertVoterNode (insertVoterNode (insertVoterNode Leaf [65]) [66]) [67]) \<and>
   cstring [68] \<and>
   registry_inv (insertVoterNode (insertVoterNode (insertVoterNode (insertVoterNode Leaf [65]) [66]) [67]) [68])"
  using registry_inv_insert [of "insertVoterNode (insertVoterNode (insertVoterNode Leaf [65]) [66]) [67]" "[68]"]
  by (simp add: registry_inv_def createVoterNode_def balanceAfterInsert.simps(2))


text \<open>C4. Insertion refines the abstract registry map: on a valid registry,
  \<open>insertVoterNode\<close> adds the identifier with voted flag 0 when it is absent and
  leaves the map unchanged when it is present (re-insertion does not alter the voted
  status).\<close>

theorem insertVoterNode_refines:
  "registry_inv t \<Longrightarrow> cstring x \<Longrightarrow> regmap (insertVoterNode t x) = reg_insert_spec (regmap t) x"
  by (rule insert_regmap)

theorem insertVoterNode_refines_witness:
  "regmap (insertVoterNode (insertVoterNode (insertVoterNode (insertVoterNode Leaf [65]) [66]) [67]) [66]) = reg_insert_spec (regmap (insertVoterNode (insertVoterNode (insertVoterNode Leaf [65]) [66]) [67])) [66] \<and>
   regmap (insertVoterNode (insertVoterNode (insertVoterNode (insertVoterNode Leaf [65]) [66]) [67]) [66]) [66] = Some 0"
  using insertVoterNode_refines [of "insertVoterNode (insertVoterNode (insertVoterNode Leaf [65]) [66]) [67]" "[66]"]
  by (simp add: registry_inv_def regmap_def reg_insert_spec_def createVoterNode_def balanceAfterInsert.simps(2))

text \<open>Inserting an identifier that is already registered returns exactly the same
  tree: \<open>insertVoterNode\<close> is a no-op on duplicates (no rotation, no height
  change, voted flag kept).\<close>

theorem insertVoterNode_duplicate:
  "registry_inv t \<Longrightarrow> x \<in> set (keys t) \<Longrightarrow> insertVoterNode t x = t"
  by (rule insert_present)

theorem insertVoterNode_duplicate_witness:
  "insertVoterNode (insertVoterNode (insertVoterNode (insertVoterNode Leaf [65]) [66]) [67]) [65] = insertVoterNode (insertVoterNode (insertVoterNode Leaf [65]) [66]) [67]"
  using insertVoterNode_duplicate [of "insertVoterNode (insertVoterNode (insertVoterNode Leaf [65]) [66]) [67]" "[65]"]
  by (simp add: registry_inv_def createVoterNode_def balanceAfterInsert.simps(2))

text \<open>C5. \<open>findVoter\<close> on a valid registry returns the node of the requested
  identifier when it is registered, and its voted flag is the one the abstract map
  holds; it returns NULL (None) exactly for unregistered identifiers.\<close>

theorem findVoter_refines:
  "registry_inv t \<Longrightarrow> cstring x \<Longrightarrow>
   map_option voted (findVoter t x) = regmap t x \<and>
   (\<forall>v. findVoter t x = Some v \<longrightarrow> voterID v = x)"
  using findVoter_regmap findVoter_key by blast

theorem findVoter_refines_witness:
  "map_option voted (findVoter (insertVoterNode (insertVoterNode (insertVoterNode Leaf [65]) [66]) [67]) [67]) = regmap (insertVoterNode (insertVoterNode (insertVoterNode Leaf [65]) [66]) [67]) [67] \<and>
   findVoter (insertVoterNode (insertVoterNode (insertVoterNode Leaf [65]) [66]) [67]) [68] = None"
  using findVoter_refines [of "insertVoterNode (insertVoterNode (insertVoterNode Leaf [65]) [66]) [67]" "[67]"]
  by (simp add: registry_inv_def regmap_def createVoterNode_def balanceAfterInsert.simps(2))

text \<open>C6. \<open>updateVotingStatus\<close> on a valid registry implements markVoted: it returns
  \<open>-1\<close> (NotFound) and keeps the map for an unregistered identifier, \<open>1\<close>
  (AlreadyVoted) and keeps the map for one already marked, and \<open>0\<close> (MarkedNow)
  with the flag set to 1 otherwise.\<close>

theorem updateVotingStatus_refines:
  "registry_inv t \<Longrightarrow> cstring x \<Longrightarrow>
   (case updateVotingStatus t x of (res, t') \<Rightarrow> (res, regmap t')) = reg_mark_spec (regmap t) x"
  by (rule update_regmap)

theorem updateVotingStatus_refines_witness:
  "(case updateVotingStatus (insertVoterNode (insertVoterNode (insertVoterNode Leaf [65]) [66]) [67]) [66] of (res, t') \<Rightarrow> (res, regmap t')) =
     reg_mark_spec (regmap (insertVoterNode (insertVoterNode (insertVoterNode Leaf [65]) [66]) [67])) [66] \<and>
   fst (updateVotingStatus (insertVoterNode (insertVoterNode (insertVoterNode Leaf [65]) [66]) [67]) [66]) = 0"
  using updateVotingStatus_refines [of "insertVoterNode (insertVoterNode (insertVoterNode Leaf [65]) [66]) [67]" "[66]"]
  by (simp add: registry_inv_def createVoterNode_def balanceAfterInsert.simps(2))

text \<open>C9. When \<open>updateVotingStatus\<close> does not answer MarkedNow (\<open>0\<close>), the tree
  is left exactly as it was: the NotFound and AlreadyVoted paths change no state.\<close>

theorem updateVotingStatus_frame:
  "fst (updateVotingStatus t x) \<noteq> 0 \<Longrightarrow> snd (updateVotingStatus t x) = t"
  by (rule update_unchanged)

theorem updateVotingStatus_frame_witness:
  "fst (updateVotingStatus (insertVoterNode (insertVoterNode (insertVoterNode Leaf [65]) [66]) [67]) [70]) = -1 \<and> snd (updateVotingStatus (insertVoterNode (insertVoterNode (insertVoterNode Leaf [65]) [66]) [67]) [70]) = insertVoterNode (insertVoterNode (insertVoterNode Leaf [65]) [66]) [67]"
  using updateVotingStatus_frame [of "insertVoterNode (insertVoterNode (insertVoterNode Leaf [65]) [66]) [67]" "[70]"]
  by (simp add: createVoterNode_def balanceAfterInsert.simps(2))



text \<open>C8. markVoted is idempotent in effect but not in its answer: after a call that
  answered MarkedNow (\<open>0\<close>), a second call for the same identifier answers
  AlreadyVoted (\<open>1\<close>) and leaves the tree unchanged (\<open>spec.md\<close> section 8).\<close>

theorem updateVotingStatus_idempotent:
  assumes "registry_inv t" "cstring x" "updateVotingStatus t x = (0, t')"
  shows "updateVotingStatus t' x = (1, t')"
proof -
  have m: "reg_mark_spec (regmap t) x = (0, regmap t')"
    using update_regmap [OF assms(1,2)] assms(3) by simp
  then have "regmap t' x = Some 1"
    by (auto simp: reg_mark_spec_def split: option.splits if_splits) (metis fun_upd_same)
  moreover have inv': "registry_inv t'"
    using update_shape [of t x] assms(1,3) by (simp add: registry_inv_def)
  ultimately have "fst (updateVotingStatus t' x) = 1"
    using update_regmap [OF inv' assms(2)]
    by (cases "updateVotingStatus t' x") (simp add: reg_mark_spec_def)
  then show ?thesis
    using update_unchanged [of t' x] by (cases "updateVotingStatus t' x") simp
qed

theorem updateVotingStatus_idempotent_witness:
  "updateVotingStatus (insertVoterNode (insertVoterNode (insertVoterNode Leaf [65]) [66]) [67]) [65] = (0, snd (updateVotingStatus (insertVoterNode (insertVoterNode (insertVoterNode Leaf [65]) [66]) [67]) [65])) \<and>
   updateVotingStatus (snd (updateVotingStatus (insertVoterNode (insertVoterNode (insertVoterNode Leaf [65]) [66]) [67]) [65])) [65] =
     (1, snd (updateVotingStatus (insertVoterNode (insertVoterNode (insertVoterNode Leaf [65]) [66]) [67]) [65]))"
  using updateVotingStatus_idempotent [of "insertVoterNode (insertVoterNode (insertVoterNode Leaf [65]) [66]) [67]" "[65]" "snd (updateVotingStatus (insertVoterNode (insertVoterNode (insertVoterNode Leaf [65]) [66]) [67]) [65])"]
  by (simp add: registry_inv_def createVoterNode_def balanceAfterInsert.simps(2))

end
