(* ===== verification/Registry_Snapshot.thy ===== *)
theory Registry_Snapshot
  imports Registry "HOL-Library.Multiset"
begin

text \<open>
  The registry snapshot \<open>voter_data.bin\<close> of \<open>src/avl.c\<close>. \<open>saveNodeToBinaryFile\<close>
  writes one fixed-width \<open>VoterNode\<close> record per node in pre-order, with no marker for
  an absent child; \<open>loadNodeFromBinaryFile\<close> reads a record, then its left subtree,
  then its right subtree, and a read past the end of the file is the NULL child. A
  file is modelled as its list of records (\<open>voter_node\<close>: identifier, voted flag and
  the stored height, which the loader keeps; the pointer fields written to disk are
  overwritten on load and are not modelled). \<open>fopen\<close> failing is the value \<open>None\<close>
  of the file, or the flag \<open>ok = False\<close> of a save, which leaves the old file.
  The loader is nested recursion: the right subtree is read from the records the left
  subtree left over. Its termination rests on the fact that a load never returns more
  records than it was given, proved first as a partial property through the domain
  predicate (\<open>load_rest_length\<close>).
  The theory proves that a load always consumes the whole file and that saving what
  was loaded gives the file back, and that the converse fails: the left recursion
  reads every following record, so a saved tree is reloaded as a left spine in
  pre-order (\<open>load_save_spine\<close>), which loses the search order.
\<close>

type_synonym snapshot = "voter_node list"

primrec saveNodeToBinaryFile :: "vtree \<Rightarrow> snapshot" where
  "saveNodeToBinaryFile Leaf = []"
| "saveNodeToBinaryFile (Node l v r) = v # saveNodeToBinaryFile l @ saveNodeToBinaryFile r"

text \<open>\<open>saveTreeToBinaryFile\<close>: \<open>fopen(filename, "wb")\<close> truncates and rewrites the
  file; when it fails the old file is left as it was.\<close>

definition saveTreeToBinaryFile :: "bool \<Rightarrow> vtree \<Rightarrow> snapshot option \<Rightarrow> snapshot option" where
  "saveTreeToBinaryFile ok t old = (if ok then Some (saveNodeToBinaryFile t) else old)"

function (domintros) loadNodeFromBinaryFile :: "snapshot \<Rightarrow> vtree \<times> snapshot" where
  "loadNodeFromBinaryFile [] = (Leaf, [])"
| "loadNodeFromBinaryFile (v # rs) =
     (let (l, rs1) = loadNodeFromBinaryFile rs;
          (r, rs2) = loadNodeFromBinaryFile rs1
      in (Node l v r, rs2))"
  by pat_completeness auto

lemma load_rest_length:
  "loadNodeFromBinaryFile_dom rs \<Longrightarrow> length (snd (loadNodeFromBinaryFile rs)) \<le> length rs"
proof (induction rule: loadNodeFromBinaryFile.pinduct)
  case 1
  then show ?case by (simp add: loadNodeFromBinaryFile.psimps)
next
  case (2 v rs)
  then show ?case
    by (force simp: loadNodeFromBinaryFile.psimps split: prod.split)
qed

termination loadNodeFromBinaryFile
  by (relation "measure length") (simp_all, metis le_imp_less_Suc load_rest_length snd_conv)

text \<open>\<open>loadTreeFromBinaryFile\<close>: an absent file (\<open>None\<close>) leaves the tree as it was;
  otherwise the root is whatever \<open>loadNodeFromBinaryFile\<close> builds.
  \<open>initializeTree\<close> sets the root to NULL first.\<close>

definition loadTreeFromBinaryFile :: "snapshot option \<Rightarrow> vtree \<Rightarrow> vtree" where
  "loadTreeFromBinaryFile file t =
     (case file of None \<Rightarrow> t | Some rs \<Rightarrow> fst (loadNodeFromBinaryFile rs))"

definition initializeTree :: "snapshot option \<Rightarrow> vtree" where
  "initializeTree file = loadTreeFromBinaryFile file Leaf"

text \<open>The shape the loader gives a file of records: each record's left child is the
  tree of all the records after it, every right child is NULL.\<close>

primrec left_spine :: "snapshot \<Rightarrow> vtree" where
  "left_spine [] = Leaf"
| "left_spine (v # rs) = Node (left_spine rs) v Leaf"


subsection \<open>What the loader builds\<close>

lemma load_spine: "loadNodeFromBinaryFile rs = (left_spine rs, [])"
  by (induction rs) simp_all

lemma save_left_spine [simp]: "saveNodeToBinaryFile (left_spine rs) = rs"
  by (induction rs) simp_all

lemma inorder_left_spine: "inorder (left_spine rs) = rev rs"
  by (induction rs) simp_all

lemma mset_save: "mset (saveNodeToBinaryFile t) = mset (inorder t)"
  by (induction t) (simp_all add: ac_simps)

text \<open>A tree whose pre-order key sequence is strictly decreasing and whose in-order
  sequence is strictly increasing has no right child anywhere: it is a left chain.\<close>

fun left_chain :: "vtree \<Rightarrow> bool" where
  "left_chain Leaf = True"
| "left_chain (Node l v r) = (r = Leaf \<and> left_chain l)"

lemma set_save: "set (saveNodeToBinaryFile t) = set (inorder t)"
  by (induction t) auto

lemma decreasing_preorder_left_chain:
  "sorted_wrt (>) (map voterID (saveNodeToBinaryFile t)) \<Longrightarrow> sorted_wrt (<) (keys t) \<Longrightarrow> left_chain t"
proof (induction t)
  case (Node l v r)
  have "\<forall>k \<in> set (keys r). k < voterID v" "\<forall>k \<in> set (keys r). voterID v < k"
    using Node.prems by (auto simp: sorted_wrt_append keys_def set_save)
  then have "r = Leaf" by (cases r) (auto dest: order.asym)
  with Node show ?case by (simp add: sorted_wrt_append)
qed simp

lemma hgt_0_iff [simp]: "hgt t = 0 \<longleftrightarrow> t = Leaf"
  by (cases t) auto

lemma avl_left_chain_small: "avl t \<Longrightarrow> left_chain t \<Longrightarrow> length (inorder t) \<le> 2"
proof (induction t)
  case (Node l v r)
  then have "hgt l \<le> 1" "r = Leaf" by auto
  with Node.prems show ?case by (cases l) auto
qed simp


subsection \<open>Properties of the snapshot\<close>

text \<open>C24. \<open>loadNodeFromBinaryFile\<close> always returns, and it returns having read the
  whole file: no record is left unread, whatever the file holds.\<close>

theorem loadNodeFromBinaryFile_consumes_file: "snd (loadNodeFromBinaryFile rs) = []"
  by (simp add: load_spine)

text \<open>Loading any snapshot file and saving the tree it gives writes back exactly
  the same sequence of records (file, tree, file round trip).\<close>

theorem snapshot_file_roundtrip:
  "saveTreeToBinaryFile True (initializeTree (Some rs)) old = Some rs"
  by (simp add: saveTreeToBinaryFile_def initializeTree_def loadTreeFromBinaryFile_def load_spine)

text \<open>C22. Saving a registry and loading it back (\<open>initializeTree\<close> at the next start)
  does not rebuild the tree: it builds the left spine of the pre-order record sequence,
  every node's right child NULL. The spec's round trip (\<open>spec.md\<close> sections 4.1 and 8)
  does not hold.\<close>

theorem snapshot_reload_shape:
  "initializeTree (saveTreeToBinaryFile True t old) = left_spine (saveNodeToBinaryFile t)"
  by (simp add: saveTreeToBinaryFile_def initializeTree_def loadTreeFromBinaryFile_def load_spine)

text \<open>The reload loses no record: the reloaded tree holds exactly the saved
  nodes (identifier, voted flag, stored height), with their multiplicities.\<close>

theorem snapshot_reload_keeps_records:
  "mset (inorder (initializeTree (Some (saveNodeToBinaryFile t)))) = mset (inorder t)"
  by (simp add: initializeTree_def loadTreeFromBinaryFile_def load_spine inorder_left_spine mset_save)

text \<open>C23. For every valid registry of three or more voters, the reloaded tree is no
  longer a valid registry: its in-order keys are not sorted, so searches by key go
  wrong.\<close>

theorem snapshot_reload_breaks_invariant:
  assumes inv: "registry_inv t" and big: "3 \<le> length (inorder t)"
  shows "\<not> registry_inv (initializeTree (Some (saveNodeToBinaryFile t)))"
proof
  assume "registry_inv (initializeTree (Some (saveNodeToBinaryFile t)))"
  then have "sorted_wrt (<) (rev (map voterID (saveNodeToBinaryFile t)))"
    by (simp add: registry_inv_def keys_def initializeTree_def loadTreeFromBinaryFile_def
        load_spine inorder_left_spine rev_map)
  then have "sorted_wrt (>) (map voterID (saveNodeToBinaryFile t))"
    by (simp add: sorted_wrt_rev)
  with inv have "left_chain t"
    by (simp add: registry_inv_def decreasing_preorder_left_chain)
  with inv have "length (inorder t) \<le> 2"
    by (simp add: registry_inv_def avl_left_chain_small)
  with big show False by simp
qed

theorem snapshot_reload_breaks_invariant_witness:
  "registry_inv (insertVoterNode (insertVoterNode (insertVoterNode Leaf [65]) [66]) [67]) \<and> 3 \<le> length (inorder (insertVoterNode (insertVoterNode (insertVoterNode Leaf [65]) [66]) [67])) \<and>
   \<not> registry_inv (initializeTree (Some (saveNodeToBinaryFile (insertVoterNode (insertVoterNode (insertVoterNode Leaf [65]) [66]) [67]))))"
  using snapshot_reload_breaks_invariant [of "insertVoterNode (insertVoterNode (insertVoterNode Leaf [65]) [66]) [67]"]
  by (simp add: registry_inv_def createVoterNode_def balanceAfterInsert.simps(2))

text \<open>A concrete consequence: after voters 65, 66, 67 are registered and the
  program restarts, \<open>findVoter\<close> no longer finds voter 67 (the search goes right at
  the root, where the reloaded tree has NULL), although the record is in the tree.\<close>

theorem snapshot_reload_loses_voter:
  "findVoter (insertVoterNode (insertVoterNode (insertVoterNode Leaf [65]) [66]) [67]) [67] \<noteq> None \<and>
   findVoter (initializeTree (Some (saveNodeToBinaryFile (insertVoterNode (insertVoterNode (insertVoterNode Leaf [65]) [66]) [67])))) [67] = None \<and>
   [67] \<in> voterID ` set (inorder (initializeTree (Some (saveNodeToBinaryFile (insertVoterNode (insertVoterNode (insertVoterNode Leaf [65]) [66]) [67])))))"
  by (simp add: initializeTree_def loadTreeFromBinaryFile_def load_spine createVoterNode_def balanceAfterInsert.simps(2))

end
