(* ===== verification/Block.thy ===== *)
theory Block
  imports Prelude
begin

text \<open>
  The vote block and the ledger state of \<open>src/blockchain.h\<close>, and the byte string
  \<open>toString\<close> of \<open>src/blockchain.c\<close> that both the chain hash and the Merkle content
  hash digest. A block is the record \<open>block\<close> (the \<open>next\<close> link is the position in
  the list \<open>blocks\<close> of the ledger, head first); the ledger is the record
  \<open>blockchain\<close>, whose \<open>merkle_tree\<close> is the filled prefix of the C array
  (\<open>merkle_count\<close> is its length).
  \<open>toString\<close> builds \<open>voterID ++ candID ++ prevhash\<close> in a buffer of exactly that
  length, and the code hashes it with \<open>SHA256(s, strlen(s))\<close>: the digest input is
  the buffer up to its first zero byte (\<open>hashInput\<close>). When \<open>prevhash\<close> holds no
  zero byte \<open>strlen\<close> reads past the buffer; the model takes the byte after the
  buffer to be zero, which is the most favourable case for the code.
\<close>

record block =
  bvoterID :: "byte list"
  candID :: "byte list"
  prevhash :: digest

record blockchain =
  blocks :: "block list"
  merkle_root :: digest
  merkle_tree :: "digest list"

text \<open>\<open>MAX_MERKLE_TREE_SIZE\<close> of \<open>blockchain.h\<close>: the capacity of the content-hash
  cache and of the stack array \<open>temp_tree\<close> of \<open>calculateMerkleRoot\<close>.\<close>

definition MAX_MERKLE_TREE_SIZE :: nat where
  "MAX_MERKLE_TREE_SIZE = 64"

definition toString :: "block \<Rightarrow> byte list" where
  "toString b = bvoterID b @ candID b @ prevhash b"

definition hashInput :: "block \<Rightarrow> byte list" where
  "hashInput b = c_str (toString b)"

text \<open>\<open>hashCompare\<close>: \<open>memcmp\<close> of the first 32 bytes.\<close>

definition hashCompare :: "digest \<Rightarrow> digest \<Rightarrow> bool" where
  "hashCompare a b \<longleftrightarrow> take SHA256_DIGEST_LENGTH a = take SHA256_DIGEST_LENGTH b"

text \<open>A block whose identifiers are C strings, as \<open>strdup\<close> of the GUI's
  NUL-terminated input makes them.\<close>

definition block_ok :: "block \<Rightarrow> bool" where
  "block_ok b \<longleftrightarrow> cstring (bvoterID b) \<and> cstring (candID b)"

lemma hashInput_ok:
  "block_ok b \<Longrightarrow> hashInput b = bvoterID b @ candID b @ c_str (prevhash b)"
  by (simp add: hashInput_def toString_def block_ok_def)

lemma hashInput_no_zero:
  "block_ok b \<Longrightarrow> 0 \<notin> set (prevhash b) \<Longrightarrow> hashInput b = toString b"
  by (simp add: hashInput_ok toString_def cstring_iff)

end
