(* ===== verification/Merkle.thy ===== *)
theory Merkle
  imports Block
begin

text \<open>
  The Merkle accumulator, \<open>calculateMerkleRoot\<close> of \<open>src/blockchain.c\<close>. The code
  hashes every block into the stack array \<open>temp_tree[64]\<close>, then repeatedly pairs
  adjacent entries in place, writing the hash of entries \<open>i, i+1\<close> (or \<open>i, i\<close> for
  an odd last entry) to index \<open>j = i/2\<close>, until one entry is left.
  \<open>merkle_pass\<close> is the inner loop and \<open>merkle_levels\<close> the outer one, both on the
  array as a list updated by index; the array has as many cells as blocks, since cells
  past \<open>count\<close> are never read. \<open>calculateMerkleRoot\<close> returns an error value for
  the two inputs on which the C code has undefined behaviour: no block (it returns the
  uninitialised \<open>temp_tree[0]\<close>) and more than 64 blocks (the first loop writes past
  \<open>temp_tree\<close>).
  The reference of \<open>spec.md\<close> section 4.3 is \<open>merkle_level\<close>/\<open>merkle_reduce\<close> on
  lists; the main theorem here is that the in-place loops compute it.
\<close>

datatype merkle_error = MerkleEmpty | MerkleOverflow

text \<open>contentHash of the spec: \<open>SHA256(toString(b), strlen(toString(b)))\<close>.\<close>

definition contentHash :: "hashfn \<Rightarrow> block \<Rightarrow> digest" where
  "contentHash H b = H (hashInput b)"

subsection \<open>Reference: one level and the whole reduction\<close>

fun merkle_level :: "hashfn \<Rightarrow> digest list \<Rightarrow> digest list" where
  "merkle_level H [] = []"
| "merkle_level H [x] = [H (x @ x)]"
| "merkle_level H (x # y # zs) = H (x @ y) # merkle_level H zs"

lemma length_merkle_level: "length (merkle_level H xs) = (length xs + 1) div 2"
  by (induction xs rule: merkle_level.induct) simp_all

function merkle_reduce :: "hashfn \<Rightarrow> digest list \<Rightarrow> digest" where
  "merkle_reduce H xs =
     (if length xs \<le> 1 then hd xs else merkle_reduce H (merkle_level H xs))"
  by pat_completeness auto
termination
  by (relation "measure (\<lambda>(H, xs). length xs)") (auto simp: length_merkle_level)

declare merkle_reduce.simps [simp del]

subsection \<open>The code: in-place loops on \<open>temp_tree\<close>\<close>

function merkle_pass :: "hashfn \<Rightarrow> nat \<Rightarrow> nat \<Rightarrow> nat \<Rightarrow> digest list \<Rightarrow> nat \<times> digest list" where
  "merkle_pass H count i j tt =
     (if i < count then
        (let data = tt ! i @ (if i + 1 < count then tt ! (i + 1) else tt ! i)
         in merkle_pass H count (i + 2) (j + 1) (tt[j := H data]))
      else (j, tt))"
  by pat_completeness auto
termination
  by (relation "measure (\<lambda>(H, count, i, j, tt). count - i)") auto

declare merkle_pass.simps [simp del]

lemma merkle_pass_count: "fst (merkle_pass H n i j tt) = j + (n - i + 1) div 2"
proof (induction H n i j tt rule: merkle_pass.induct)
  case (1 H n i j tt)
  then show ?case
    by (auto simp: Let_def merkle_pass.simps [of H n i j tt]; presburger)
qed

lemma merkle_pass_less: "1 < n \<Longrightarrow> fst (merkle_pass H n 0 0 tt) < n"
  by (simp add: merkle_pass_count)

function merkle_levels :: "hashfn \<Rightarrow> nat \<Rightarrow> digest list \<Rightarrow> digest list" where
  "merkle_levels H count tt =
     (if 1 < count then
        (let (j, tt') = merkle_pass H count 0 0 tt in merkle_levels H j tt')
      else tt)"
  by pat_completeness auto
termination
proof (relation "measure (\<lambda>(H, count, tt). count)")
  fix H count tt x xa y
  assume "1 < count" "x = merkle_pass H count 0 0 tt" "(xa, y) = x"
  then have "xa < count" using merkle_pass_less [of count H tt] by (metis fst_conv)
  then show "((H, xa, y), H, count, tt) \<in> measure (\<lambda>(H, count, tt). count)" by simp
qed simp

declare merkle_levels.simps [simp del]

definition calculateMerkleRoot :: "hashfn \<Rightarrow> block list \<Rightarrow> merkle_error + digest" where
  "calculateMerkleRoot H bs =
     (let temp_tree = map (contentHash H) bs; count = length bs
      in if MAX_MERKLE_TREE_SIZE < count then Inl MerkleOverflow
         else if count = 0 then Inl MerkleEmpty
         else Inr (merkle_levels H count temp_tree ! 0))"


subsection \<open>The in-place loops compute the reference\<close>

lemma merkle_reduce_single [simp]: "merkle_reduce H [x] = x"
  by (simp add: merkle_reduce.simps)

lemma merkle_reduce_step: "1 < length xs \<Longrightarrow> merkle_reduce H xs = merkle_reduce H (merkle_level H xs)"
  by (simp add: merkle_reduce.simps [of H xs])

lemma length_merkle_pass: "length (snd (merkle_pass H n i j tt)) = length tt"
proof (induction H n i j tt rule: merkle_pass.induct)
  case (1 H n i j tt)
  then show ?case by (auto simp: Let_def merkle_pass.simps [of H n i j tt])
qed

lemma drop_take_Cons:
  "i < n \<Longrightarrow> n \<le> length tt \<Longrightarrow> drop i (take n tt) = tt ! i # drop (Suc i) (take n tt)"
proof -
  assume "i < n" "n \<le> length tt"
  then have "i < length (take n tt)" by simp
  then have "drop i (take n tt) = take n tt ! i # drop (Suc i) (take n tt)"
    by (rule Cons_nth_drop_Suc [symmetric])
  with \<open>i < n\<close> show ?thesis by simp
qed

text \<open>The inner loop: with \<open>i = 2j\<close>, the cells below \<open>j\<close> hold the next level
  computed so far and the cells from \<open>i\<close> on are still untouched, so writing cell
  \<open>j\<close> never destroys an entry the loop has yet to read.\<close>

lemma merkle_pass_level:
  "i = 2 * j \<Longrightarrow> n \<le> length tt \<Longrightarrow>
   take (fst (merkle_pass H n i j tt)) (snd (merkle_pass H n i j tt)) =
     take j tt @ merkle_level H (drop i (take n tt))"
proof (induction H n i j tt rule: merkle_pass.induct)
  case (1 H n i j tt)
  show ?case
  proof (cases "i < n")
    case False
    then show ?thesis by (simp add: merkle_pass.simps [of H n i j tt])
  next
    case True
    define d where "d = tt ! i @ (if i + 1 < n then tt ! (i + 1) else tt ! i)"
    have j: "j < length tt" using True "1.prems" by simp
    have eq: "merkle_pass H n i j tt = merkle_pass H n (i + 2) (j + 1) (tt[j := H d])"
      using True by (simp add: merkle_pass.simps [of H n i j tt] d_def Let_def)
    have IH: "take (fst (merkle_pass H n (i + 2) (j + 1) (tt[j := H d])))
                (snd (merkle_pass H n (i + 2) (j + 1) (tt[j := H d]))) =
              take (j + 1) (tt[j := H d]) @ merkle_level H (drop (i + 2) (take n (tt[j := H d])))"
      using "1.IH" [OF True d_def] "1.prems" by simp
    have t: "take (j + 1) (tt[j := H d]) = take j tt @ [H d]"
      using j by (simp add: take_Suc_conv_app_nth)
    have dr: "drop (i + 2) (take n (tt[j := H d])) = drop (i + 2) (take n tt)"
      using "1.prems"(1) by (simp add: take_update_swap drop_update_cancel)
    have lv: "merkle_level H (drop i (take n tt)) = H d # merkle_level H (drop (i + 2) (take n tt))"
    proof (cases "i + 1 < n")
      case True
      then show ?thesis using "1.prems"(2)
        by (simp add: d_def drop_take_Cons [of i n tt] drop_take_Cons [of "Suc i" n tt])
    next
      case False
      with \<open>i < n\<close> have n: "n = Suc i" by simp
      then show ?thesis using "1.prems"(2)
        by (simp add: d_def drop_take_Cons [of i "Suc i" tt])
    qed
    show ?thesis unfolding eq IH t dr lv by simp
  qed
qed

lemma merkle_levels_reduce:
  "0 < n \<Longrightarrow> n \<le> length tt \<Longrightarrow> merkle_levels H n tt ! 0 = merkle_reduce H (take n tt)"
proof (induction H n tt rule: merkle_levels.induct)
  case (1 H n tt)
  show ?case
  proof (cases "1 < n")
    case False
    with "1.prems" have n: "n = 1" by simp
    have "merkle_levels H n tt = tt"
      using False by (simp add: merkle_levels.simps [of H n tt])
    moreover have "take n tt = [tt ! 0]"
      using n "1.prems" by (cases tt) simp_all
    ultimately show ?thesis by simp
  next
    case True
    obtain j tt' where p: "merkle_pass H n 0 0 tt = (j, tt')" by fastforce
    have j: "j = (n + 1) div 2" using merkle_pass_count [of H n 0 0 tt] p by simp
    have lt: "length tt' = length tt" using length_merkle_pass [of H n 0 0 tt] p by simp
    have lev: "take j tt' = merkle_level H (take n tt)"
      using merkle_pass_level [of 0 0 n tt H] "1.prems"(2) p by simp
    have "merkle_levels H j tt' ! 0 = merkle_reduce H (take j tt')"
      using "1.IH" [OF True p [symmetric] refl] j lt "1.prems" True by simp
    then show ?thesis
      using True "1.prems"(2)
      by (simp add: merkle_levels.simps [of H n tt] p lev merkle_reduce_step)
  qed
qed


lemma merkle_level_dup_last:
  "odd (length xs) \<Longrightarrow> merkle_level H (xs @ [last xs]) = merkle_level H xs"
proof (induction H xs rule: merkle_level.induct)
  case (3 H x y zs)
  then show ?case by (cases zs) auto
qed simp_all

subsection \<open>Properties of the accumulator\<close>

text \<open>C12. On a ledger of 1 to 64 blocks, \<open>calculateMerkleRoot\<close>'s in-place loops
  over \<open>temp_tree\<close> compute the root of the spec: content hashes paired left to
  right, an odd last hash paired with itself, level by level until one is left.\<close>

theorem calculateMerkleRoot_equiv:
  "bs \<noteq> [] \<Longrightarrow> length bs \<le> MAX_MERKLE_TREE_SIZE \<Longrightarrow>
   calculateMerkleRoot H bs = Inr (merkle_reduce H (map (contentHash H) bs))"
  using merkle_levels_reduce [of "length bs" "map (contentHash H) bs" H]
  by (simp add: calculateMerkleRoot_def Let_def)

theorem calculateMerkleRoot_equiv_witness:
  "calculateMerkleRoot (\<lambda>x. x) [\<lparr>bvoterID = [86], candID = [67], prevhash = [1]\<rparr>,
                                \<lparr>bvoterID = [87], candID = [67], prevhash = [2]\<rparr>] =
   Inr (merkle_reduce (\<lambda>x. x) (map (contentHash (\<lambda>x. x))
     [\<lparr>bvoterID = [86], candID = [67], prevhash = [1]\<rparr>,
      \<lparr>bvoterID = [87], candID = [67], prevhash = [2]\<rparr>]))"
  using calculateMerkleRoot_equiv [of "[\<lparr>bvoterID = [86], candID = [67], prevhash = [1]\<rparr>,
      \<lparr>bvoterID = [87], candID = [67], prevhash = [2]\<rparr>]" "\<lambda>x. x"]
  by (simp add: MAX_MERKLE_TREE_SIZE_def)


text \<open>C30. The odd-count rule makes the root ambiguous in the number of leaves:
  appending to an odd-length ledger (of at least three blocks) a block whose content
  hash equals that of the last block leaves the Merkle root unchanged.\<close>

theorem calculateMerkleRoot_dup_last:
  assumes "odd (length bs)" "1 < length bs" "length bs < MAX_MERKLE_TREE_SIZE"
    and "contentHash H b = contentHash H (last bs)"
  shows "calculateMerkleRoot H (bs @ [b]) = calculateMerkleRoot H bs"
proof -
  have ne: "bs \<noteq> []" using assms(2) by auto
  define xs where "xs = map (contentHash H) bs"
  have m: "map (contentHash H) (bs @ [b]) = xs @ [last xs]"
    using assms(4) ne by (simp add: last_map xs_def)
  have l: "odd (length xs)" "1 < length xs" using assms(1,2) by (simp_all add: xs_def)
  have "merkle_reduce H (xs @ [last xs]) = merkle_reduce H (merkle_level H (xs @ [last xs]))"
    using l by (intro merkle_reduce_step) auto
  also have "\<dots> = merkle_reduce H (merkle_level H xs)"
    using l by (simp add: merkle_level_dup_last)
  also have "\<dots> = merkle_reduce H xs"
    using l by (intro merkle_reduce_step [symmetric])
  finally have "merkle_reduce H (map (contentHash H) (bs @ [b])) = merkle_reduce H (map (contentHash H) bs)"
    unfolding m xs_def .
  then show ?thesis
    using assms(2,3) ne merkle_levels_reduce [of "length bs" "map (contentHash H) bs" H]
      merkle_levels_reduce [of "length (bs @ [b])" "map (contentHash H) (bs @ [b])" H]
    by (simp add: calculateMerkleRoot_def Let_def)
qed

theorem calculateMerkleRoot_dup_last_witness:
  "calculateMerkleRoot (\<lambda>x. x)
     [\<lparr>bvoterID = [86], candID = [67], prevhash = [1]\<rparr>, \<lparr>bvoterID = [87], candID = [67], prevhash = [2]\<rparr>,
      \<lparr>bvoterID = [88], candID = [67], prevhash = [3]\<rparr>, \<lparr>bvoterID = [88], candID = [67], prevhash = [3]\<rparr>] =
   calculateMerkleRoot (\<lambda>x. x)
     [\<lparr>bvoterID = [86], candID = [67], prevhash = [1]\<rparr>, \<lparr>bvoterID = [87], candID = [67], prevhash = [2]\<rparr>,
      \<lparr>bvoterID = [88], candID = [67], prevhash = [3]\<rparr>]"
  using calculateMerkleRoot_dup_last [of "[\<lparr>bvoterID = [86], candID = [67], prevhash = [1]\<rparr>,
      \<lparr>bvoterID = [87], candID = [67], prevhash = [2]\<rparr>, \<lparr>bvoterID = [88], candID = [67], prevhash = [3]\<rparr>]"
      "\<lambda>x. x" "\<lparr>bvoterID = [88], candID = [67], prevhash = [3]\<rparr>"]
  by (simp add: MAX_MERKLE_TREE_SIZE_def)

end
