(* ===== verification/Ledger_File.thy ===== *)
theory Ledger_File
  imports Block
begin

text \<open>
  The ledger file \<open>blockchain_data.bin\<close>, written by \<open>saveBlockchainToFile\<close> and read
  by \<open>loadBlockchainFromFile\<close> of \<open>src/avl.c\<close>. The file is its byte list. Each
  block is a record of two \<open>size_t\<close> lengths (8 bytes, little-endian as on the
  x86-64 targets of the build), the voter and candidate identifiers with their NUL
  (\<open>strlen + 1\<close> bytes each) and the 32-byte chain hash. The loader reads records
  until a read comes up short and keeps the blocks read so far; an allocation failure
  ends the loop the same way. An identifier read from the file is the C string its
  buffer holds (\<open>c_str\<close>: up to the first zero byte, the byte after the buffer taken to
  be zero when it holds none).
  The theory proves that the loader always returns well-formed blocks whatever the
  file holds, that loading what was saved gives the blocks back, and that a file cut
  short anywhere loads a prefix of the saved blocks.
\<close>

text \<open>Little-endian digits of a number, and the number a digit list denotes.\<close>

fun le_bytes :: "nat \<Rightarrow> nat \<Rightarrow> byte list" where
  "le_bytes 0 x = []"
| "le_bytes (Suc n) x = word_of_nat (x mod 256) # le_bytes n (x div 256)"

fun le_nat :: "byte list \<Rightarrow> nat" where
  "le_nat [] = 0"
| "le_nat (b # bs) = unat b + 256 * le_nat bs"

text \<open>A \<open>size_t\<close> as \<open>fwrite(&len, sizeof(size_t), 1, file)\<close> writes it and as
  \<open>fread\<close> reads it back.\<close>

definition size_t_bytes :: "64 word \<Rightarrow> byte list" where
  "size_t_bytes n = le_bytes 8 (unat n)"

definition size_t_of :: "byte list \<Rightarrow> 64 word" where
  "size_t_of bs = word_of_nat (le_nat bs)"

text \<open>One iteration of the loop of \<open>saveBlockchainToFile\<close>.\<close>

definition saveBlock :: "block \<Rightarrow> byte list" where
  "saveBlock b =
     (let voterID_len = (word_of_nat (length (c_str (bvoterID b)) + 1) :: 64 word);
          candID_len = (word_of_nat (length (c_str (candID b)) + 1) :: 64 word)
      in size_t_bytes voterID_len @ size_t_bytes candID_len @
         take (unat voterID_len) (c_str (bvoterID b) @ [0]) @
         take (unat candID_len) (c_str (candID b) @ [0]) @
         take SHA256_DIGEST_LENGTH (prevhash b))"

definition saveBlocks :: "block list \<Rightarrow> byte list" where
  "saveBlocks bs = concat (map saveBlock bs)"

text \<open>\<open>fopen(filename, "wb")\<close> failing (\<open>ok = False\<close>) leaves the old file.\<close>

definition saveBlockchainToFile :: "bool \<Rightarrow> blockchain \<Rightarrow> byte list option \<Rightarrow> byte list option" where
  "saveBlockchainToFile ok bc old = (if ok then Some (saveBlocks (blocks bc)) else old)"

text \<open>The loop of \<open>loadBlockchainFromFile\<close>: every short \<open>fread\<close> is a \<open>break\<close>.\<close>

function loadBlocks :: "byte list \<Rightarrow> block list" where
  "loadBlocks f =
     (if length f < 16 then []
      else
        let voterID_len = unat (size_t_of (take 8 f));
            candID_len = unat (size_t_of (take 8 (drop 8 f)));
            r1 = drop 16 f
        in if length r1 < voterID_len then []
           else
             let r2 = drop voterID_len r1
             in if length r2 < candID_len then []
                else
                  let r3 = drop candID_len r2
                  in if length r3 < SHA256_DIGEST_LENGTH then []
                     else \<lparr>bvoterID = c_str (take voterID_len r1), candID = c_str (take candID_len r2),
                           prevhash = take SHA256_DIGEST_LENGTH r3\<rparr>
                          # loadBlocks (drop SHA256_DIGEST_LENGTH r3))"
  by pat_completeness auto

termination
  by (relation "measure length") (auto simp: SHA256_DIGEST_LENGTH_def)

declare loadBlocks.simps [simp del]

text \<open>\<open>loadBlockchainFromFile\<close>: a missing file leaves the ledger as it was; otherwise
  the block list is replaced by the blocks read.\<close>

definition loadBlockchainFromFile :: "byte list option \<Rightarrow> blockchain \<Rightarrow> blockchain" where
  "loadBlockchainFromFile file bc =
     (case file of None \<Rightarrow> bc | Some f \<Rightarrow> bc\<lparr>blocks := loadBlocks f\<rparr>)"

text \<open>What the writer needs of a block for the file to hold it exactly: C-string
  identifiers, a 32-byte chain hash, lengths a \<open>size_t\<close> holds.\<close>

definition block_storable :: "block \<Rightarrow> bool" where
  "block_storable b \<longleftrightarrow> block_ok b \<and> length (prevhash b) = SHA256_DIGEST_LENGTH \<and>
     length (bvoterID b) < 2 ^ 64 - 1 \<and> length (candID b) < 2 ^ 64 - 1"


subsection \<open>Codec lemmas\<close>

lemma length_le_bytes [simp]: "length (le_bytes n x) = n"
  by (induction n arbitrary: x) simp_all

lemma le_nat_le_bytes: "x < 256 ^ n \<Longrightarrow> le_nat (le_bytes n x) = x"
proof (induction n arbitrary: x)
  case (Suc n)
  then have "le_nat (le_bytes n (x div 256)) = x div 256"
    by (simp add: less_mult_imp_div_less mult.commute)
  then show ?case by (simp add: unat_of_nat)
qed simp

lemma length_size_t_bytes [simp]: "length (size_t_bytes n) = 8"
  by (simp add: size_t_bytes_def)

lemma size_t_of_bytes [simp]: "size_t_of (size_t_bytes n) = n"
proof -
  have "unat n < 256 ^ 8" using unsigned_less [of n] by simp
  then have "le_nat (le_bytes 8 (unat n)) = unat n" by (rule le_nat_le_bytes)
  then show ?thesis by (simp add: size_t_of_def size_t_bytes_def)
qed

lemma unat_size_t_len: "n < 2 ^ 64 - 1 \<Longrightarrow> unat (1 + word_of_nat n :: 64 word) = Suc n"
proof -
  assume "n < 2 ^ 64 - 1"
  then have "unat (word_of_nat (Suc n) :: 64 word) = Suc n" by (simp only: unat_of_nat) simp
  then show ?thesis by simp
qed

lemma block_storableD:
  "block_storable b \<Longrightarrow> cstring (bvoterID b) \<and> cstring (candID b) \<and> length (prevhash b) = 32 \<and>
     length (bvoterID b) < 2 ^ 64 - 1 \<and> length (candID b) < 2 ^ 64 - 1"
  by (simp add: block_storable_def block_ok_def SHA256_DIGEST_LENGTH_def)

lemma saveBlock_storable:
  assumes "block_storable b"
  shows "saveBlock b =
    size_t_bytes (1 + word_of_nat (length (bvoterID b))) @ size_t_bytes (1 + word_of_nat (length (candID b))) @
    (bvoterID b @ [0]) @ (candID b @ [0]) @ prevhash b"
  using block_storableD [OF assms] by (simp add: saveBlock_def unat_size_t_len SHA256_DIGEST_LENGTH_def)

lemma length_saveBlock:
  "block_storable b \<Longrightarrow> length (saveBlock b) = 16 + Suc (length (bvoterID b)) + Suc (length (candID b)) + 32"
  using block_storableD [of b] by (simp add: saveBlock_storable)

lemma loadBlocks_short: "length f < 16 \<Longrightarrow> loadBlocks f = []"
  by (simp add: loadBlocks.simps)

lemma loadBlocks_saveBlock:
  assumes b: "block_storable b"
  shows "loadBlocks (saveBlock b @ rest) = b # loadBlocks rest"
  using block_storableD [OF b]
  by (subst loadBlocks.simps) (simp add: saveBlock_storable [OF b] unat_size_t_len SHA256_DIGEST_LENGTH_def)

lemma loadBlocks_part:
  assumes b: "block_storable b" and n: "n < length (saveBlock b)"
  shows "loadBlocks (take n (saveBlock b)) = []"
proof (cases "n < 16")
  case False
  then show ?thesis using block_storableD [OF b] n length_saveBlock [OF b]
    by (subst loadBlocks.simps) (simp add: saveBlock_storable [OF b] unat_size_t_len SHA256_DIGEST_LENGTH_def Let_def)
qed (simp add: loadBlocks_short)

lemma loadBlocks_saveBlocks:
  "list_all block_storable bs \<Longrightarrow> loadBlocks (saveBlocks bs @ rest) = bs @ loadBlocks rest"
  by (induction bs) (simp_all add: saveBlocks_def loadBlocks_saveBlock)

lemma loadBlocks_Nil [simp]: "loadBlocks [] = []"
  by (simp add: loadBlocks_short)


subsection \<open>Properties of the ledger file\<close>


text \<open>C25. Saving the ledger (\<open>saveBlockchainToFile\<close>, the file opened) and loading
  the file back (\<open>loadBlockchainFromFile\<close>) restores exactly the saved blocks, for
  blocks of C-string identifiers and 32-byte chain hashes.\<close>

theorem ledger_file_roundtrip:
  "list_all block_storable (blocks bc) \<Longrightarrow>
   loadBlockchainFromFile (saveBlockchainToFile True bc old) bc' = bc'\<lparr>blocks := blocks bc\<rparr>"
  using loadBlocks_saveBlocks [of "blocks bc" "[]"]
  by (simp add: loadBlockchainFromFile_def saveBlockchainToFile_def)

theorem ledger_file_roundtrip_witness:
  "list_all block_storable (blocks (\<lparr>blocks = [\<lparr>bvoterID = [86], candID = [67], prevhash = replicate 32 7\<rparr>, \<lparr>bvoterID = [87], candID = [68], prevhash = replicate 32 9\<rparr>], merkle_root = [], merkle_tree = []\<rparr>)) \<and>
   loadBlockchainFromFile (saveBlockchainToFile True (\<lparr>blocks = [\<lparr>bvoterID = [86], candID = [67], prevhash = replicate 32 7\<rparr>, \<lparr>bvoterID = [87], candID = [68], prevhash = replicate 32 9\<rparr>], merkle_root = [], merkle_tree = []\<rparr>) None) (\<lparr>blocks = [], merkle_root = [1], merkle_tree = []\<rparr>) = (\<lparr>blocks = [], merkle_root = [1], merkle_tree = []\<rparr>)\<lparr>blocks := blocks (\<lparr>blocks = [\<lparr>bvoterID = [86], candID = [67], prevhash = replicate 32 7\<rparr>, \<lparr>bvoterID = [87], candID = [68], prevhash = replicate 32 9\<rparr>], merkle_root = [], merkle_tree = []\<rparr>)\<rparr>"
  using ledger_file_roundtrip [where bc = "\<lparr>blocks = [\<lparr>bvoterID = [86], candID = [67], prevhash = replicate 32 7\<rparr>, \<lparr>bvoterID = [87], candID = [68], prevhash = replicate 32 9\<rparr>], merkle_root = [], merkle_tree = []\<rparr>" and old = None and bc' = "\<lparr>blocks = [], merkle_root = [1], merkle_tree = []\<rparr>"]
  by (simp add: block_storable_def block_ok_def SHA256_DIGEST_LENGTH_def)

text \<open>C26. A ledger file cut short at any byte (an interrupted write) loads as a prefix
  of the saved blocks: the loader never makes up a block from a partial record.\<close>

theorem ledger_file_truncated:
  "list_all block_storable bs \<Longrightarrow> \<exists>k. loadBlocks (take n (saveBlocks bs)) = take k bs"
proof (induction bs arbitrary: n)
  case Nil
  then show ?case by (simp add: saveBlocks_def)
next
  case (Cons b bs)
  then have b: "block_storable b" and bs: "list_all block_storable bs" by simp_all
  show ?case
  proof (cases "n < length (saveBlock b)")
    case True
    then have "loadBlocks (take n (saveBlocks (b # bs))) = take 0 (b # bs)"
      by (simp add: saveBlocks_def loadBlocks_part [OF b])
    then show ?thesis by blast
  next
    case False
    obtain k where "loadBlocks (take (n - length (saveBlock b)) (saveBlocks bs)) = take k bs"
      using Cons.IH [OF bs] by blast
    then have "loadBlocks (take n (saveBlocks (b # bs))) = take (Suc k) (b # bs)"
      using False loadBlocks_saveBlock [OF b] by (simp add: saveBlocks_def)
    then show ?thesis by blast
  qed
qed

theorem ledger_file_truncated_witness:
  "list_all block_storable [\<lparr>bvoterID = [86], candID = [67], prevhash = replicate 32 7\<rparr>, \<lparr>bvoterID = [87], candID = [68], prevhash = replicate 32 9\<rparr>] \<and> (\<exists>k. loadBlocks (take 100 (saveBlocks [\<lparr>bvoterID = [86], candID = [67], prevhash = replicate 32 7\<rparr>, \<lparr>bvoterID = [87], candID = [68], prevhash = replicate 32 9\<rparr>])) = take k [\<lparr>bvoterID = [86], candID = [67], prevhash = replicate 32 7\<rparr>, \<lparr>bvoterID = [87], candID = [68], prevhash = replicate 32 9\<rparr>])"
  using ledger_file_truncated [where bs = "[\<lparr>bvoterID = [86], candID = [67], prevhash = replicate 32 7\<rparr>, \<lparr>bvoterID = [87], candID = [68], prevhash = replicate 32 9\<rparr>]" and n = 100]
  by (simp add: block_storable_def block_ok_def SHA256_DIGEST_LENGTH_def)

end
