(* ===== verification/Ledger.thy ===== *)
theory Ledger
  imports Merkle Ledger_File
begin

text \<open>
  The ledger operations of \<open>src/blockchain.c\<close>: \<open>initializeBlockchain\<close>,
  \<open>castVote\<close> with the \<open>addToMerkleTree\<close> it calls, and \<open>verifyChain\<close>.
  \<open>castVote\<close> is a function from the ledger and its file (\<open>blockchain_data.bin\<close>,
  \<open>Ledger_File\<close>) to \<open>merkle_error + blockchain \<times> byte list option\<close>: its only early
  return (\<open>malloc\<close> of the block failing, the flag \<open>alloc\<close>) leaves both as they were,
  the error values are the undefined behaviour of the \<open>calculateMerkleRoot\<close> it calls,
  and on success the file is rewritten by \<open>saveBlockchainToFile\<close>.
  \<open>verifyChain\<close> returns its C result (\<open>-1\<close> empty, \<open>1\<close> all links verified,
  \<open>0\<close> otherwise) with the list of per-link verdicts it prints, link \<open>i\<close> comparing
  the hash of block \<open>i\<close> with the stored chain hash of block \<open>i + 1\<close>.
  The memory of a freshly started ledger is left open: \<open>merkle_root\<close> of the stack
  variable \<open>bc\<close> in \<open>main\<close> is never written before the first vote, so
  \<open>initializeBlockchain\<close> takes its indeterminate content as a parameter, and the
  ledger file, which it loads with \<open>loadBlockchainFromFile\<close>.
\<close>

definition initializeBlockchain :: "byte list option \<Rightarrow> digest \<Rightarrow> blockchain" where
  "initializeBlockchain file junk =
     loadBlockchainFromFile file \<lparr>blocks = [], merkle_root = junk, merkle_tree = []\<rparr>"

definition addToMerkleTree :: "blockchain \<Rightarrow> digest \<Rightarrow> blockchain" where
  "addToMerkleTree bc h =
     (if MAX_MERKLE_TREE_SIZE \<le> length (merkle_tree bc) then bc
      else bc\<lparr>merkle_tree := merkle_tree bc @ [take SHA256_DIGEST_LENGTH h]\<rparr>)"

text \<open>The chain hash a new block gets: the digest of the empty input for the first
  block, of the predecessor's \<open>toString\<close> otherwise.\<close>

definition chainHash :: "hashfn \<Rightarrow> block list \<Rightarrow> digest" where
  "chainHash H bs = (if bs = [] then H [] else H (hashInput (last bs)))"

text \<open>\<open>castVote\<close> acts on the ledger and on the ledger file it rewrites at its end;
  \<open>alloc\<close> is the success of \<open>malloc\<close> of the block, \<open>ok\<close> that of \<open>fopen\<close> in
  \<open>saveBlockchainToFile\<close>.\<close>

fun castVote :: "hashfn \<Rightarrow> bool \<Rightarrow> bool \<Rightarrow> byte list \<Rightarrow> byte list \<Rightarrow> blockchain \<times> byte list option \<Rightarrow>
    merkle_error + blockchain \<times> byte list option" where
  "castVote H alloc ok vid cid (bc, file) =
     (if \<not> alloc then Inr (bc, file)
      else
        let nb = \<lparr>bvoterID = vid, candID = cid, prevhash = chainHash H (blocks bc)\<rparr>;
            bc1 = addToMerkleTree (bc\<lparr>blocks := blocks bc @ [nb]\<rparr>) (prevhash nb)
        in case calculateMerkleRoot H (blocks bc1) of
             Inl e \<Rightarrow> Inl e
           | Inr r \<Rightarrow>
               let bc2 = bc1\<lparr>merkle_root := take SHA256_DIGEST_LENGTH r\<rparr>
               in Inr (bc2, saveBlockchainToFile ok bc2 file))"

declare castVote.simps [simp del]

fun link_verdicts :: "hashfn \<Rightarrow> block list \<Rightarrow> bool list" where
  "link_verdicts H (p # c # rest) = hashCompare (H (hashInput p)) (prevhash c) # link_verdicts H (c # rest)"
| "link_verdicts H _ = []"

definition verifyChain :: "hashfn \<Rightarrow> blockchain \<Rightarrow> int \<times> bool list" where
  "verifyChain H bc =
     (if blocks bc = [] then (-1, [])
      else let vs = link_verdicts H (blocks bc) in (if list_all id vs then 1 else 0, vs))"

text \<open>Votes cast one after another in one session, stopping at the first error.\<close>

fun castVotes :: "hashfn \<Rightarrow> (byte list \<times> byte list) list \<Rightarrow> blockchain \<times> byte list option \<Rightarrow>
    merkle_error + blockchain \<times> byte list option" where
  "castVotes H [] st = Inr st"
| "castVotes H ((v, c) # vs) st =
     (case castVote H True True v c st of Inl e \<Rightarrow> Inl e | Inr st' \<Rightarrow> castVotes H vs st')"

subsection \<open>Chain invariant\<close>

text \<open>A chain is linked when every block stores the digest of its predecessor's
  \<open>toString\<close> and the first block stores the digest of the empty input.\<close>

fun linked :: "hashfn \<Rightarrow> block list \<Rightarrow> bool" where
  "linked H (p # c # rest) = (prevhash c = H (hashInput p) \<and> linked H (c # rest))"
| "linked H _ = True"

definition chain_ok :: "hashfn \<Rightarrow> block list \<Rightarrow> bool" where
  "chain_ok H bs \<longleftrightarrow> linked H bs \<and> (bs \<noteq> [] \<longrightarrow> prevhash (hd bs) = H [])"

definition root_ok :: "hashfn \<Rightarrow> blockchain \<Rightarrow> bool" where
  "root_ok H bc \<longleftrightarrow> (\<exists>r. calculateMerkleRoot H (blocks bc) = Inr r \<and>
     hashCompare r (merkle_root bc))"


subsection \<open>Per-link verdicts\<close>

lemma length_link_verdicts: "length (link_verdicts H bs) = length bs - 1"
  by (induction H bs rule: link_verdicts.induct) simp_all

lemma nth_link_verdicts:
  "Suc i < length bs \<Longrightarrow>
   link_verdicts H bs ! i = hashCompare (H (hashInput (bs ! i))) (prevhash (bs ! Suc i))"
proof (induction H bs arbitrary: i rule: link_verdicts.induct)
  case (1 H p c rest)
  then show ?case by (cases i) simp_all
qed simp_all

lemma link_verdicts_eqI:
  "length bs' = length bs \<Longrightarrow>
   (\<And>i. Suc i < length bs \<Longrightarrow>
      hashCompare (H (hashInput (bs' ! i))) (prevhash (bs' ! Suc i)) =
      hashCompare (H (hashInput (bs ! i))) (prevhash (bs ! Suc i))) \<Longrightarrow>
   link_verdicts H bs' = link_verdicts H bs"
  by (rule nth_equalityI) (simp_all add: length_link_verdicts nth_link_verdicts)

lemma linked_nth:
  "linked H bs \<longleftrightarrow> (\<forall>i. Suc i < length bs \<longrightarrow> prevhash (bs ! Suc i) = H (hashInput (bs ! i)))"
proof (induction H bs rule: linked.induct)
  case (1 H p c rest)
  then show ?case by (auto simp: nth_Cons split: nat.splits)
qed simp_all

lemma linked_verdicts:
  "linked H bs \<Longrightarrow> link_verdicts H bs = replicate (length bs - 1) True"
  by (induction H bs rule: link_verdicts.induct) (simp_all add: hashCompare_def)

lemma linked_snoc:
  "linked H (bs @ [b]) \<longleftrightarrow> linked H bs \<and> (bs \<noteq> [] \<longrightarrow> prevhash b = H (hashInput (last bs)))"
  by (induction H bs rule: linked.induct) auto

lemma chain_ok_snoc:
  "chain_ok H (bs @ [b]) \<longleftrightarrow> chain_ok H bs \<and> prevhash b = chainHash H bs"
proof (cases "bs = []")
  case True
  then show ?thesis by (simp add: chain_ok_def chainHash_def)
next
  case False
  then show ?thesis using linked_snoc [of H bs b] by (auto simp: chain_ok_def chainHash_def)
qed

lemma chain_ok_prevhash:
  "chain_ok H bs \<Longrightarrow> b \<in> set bs \<Longrightarrow> \<exists>x. prevhash b = H x"
proof -
  assume ok: "chain_ok H bs" and b: "b \<in> set bs"
  then obtain i where i: "i < length bs" "b = bs ! i" by (metis in_set_conv_nth)
  show ?thesis
  proof (cases i)
    case 0
    then show ?thesis using ok i by (auto simp: chain_ok_def hd_conv_nth)
  next
    case (Suc j)
    then show ?thesis using ok i by (auto simp: chain_ok_def linked_nth)
  qed
qed

subsection \<open>What \<open>castVote\<close> does\<close>

lemma castVote_cases:
  "castVote H alloc ok v c (bc, f) = Inr (bc', f') \<Longrightarrow>
   (\<not> alloc \<and> bc' = bc \<and> f' = f) \<or>
   (alloc \<and> blocks bc' = blocks bc @ [\<lparr>bvoterID = v, candID = c, prevhash = chainHash H (blocks bc)\<rparr>] \<and>
    (\<exists>r. calculateMerkleRoot H (blocks bc') = Inr r \<and> merkle_root bc' = take SHA256_DIGEST_LENGTH r) \<and>
    f' = saveBlockchainToFile ok bc' f)"
  by (auto simp: castVote.simps addToMerkleTree_def Let_def split: if_splits sum.splits)

lemma castVote_blocks:
  "castVote H True ok v c (bc, f) = Inr (bc', f') \<Longrightarrow>
   blocks bc' = blocks bc @ [\<lparr>bvoterID = v, candID = c, prevhash = chainHash H (blocks bc)\<rparr>]"
  using castVote_cases by fastforce

lemma hashCompare_take: "hashCompare r (take SHA256_DIGEST_LENGTH r)"
  by (simp add: hashCompare_def)


lemma chain_ok_castVote:
  "chain_ok H (blocks bc) \<Longrightarrow> castVote H alloc ok v c (bc, f) = Inr (bc', f') \<Longrightarrow> chain_ok H (blocks bc')"
  using castVote_cases [of H alloc ok v c bc f bc' f'] by (auto simp: chain_ok_snoc)

lemma castVote_root:
  "castVote H True ok v c (bc, f) = Inr (bc', f') \<Longrightarrow> root_ok H bc' \<and> f' = saveBlockchainToFile ok bc' f"
  using castVote_cases [of H True ok v c bc f bc' f'] by (auto simp: root_ok_def hashCompare_take)

lemma castVotes_step:
  assumes "castVotes H ((v, c) # vs) st = Inr st'"
  obtains st1 where "castVote H True True v c st = Inr st1" "castVotes H vs st1 = Inr st'"
  using assms by (auto split: sum.splits)

lemma castVotes_chain:
  "castVotes H votes st = Inr st' \<Longrightarrow> chain_ok H (blocks (fst st)) \<Longrightarrow>
   chain_ok H (blocks (fst st')) \<and> length (blocks (fst st')) = length (blocks (fst st)) + length votes"
proof (induction H votes st rule: castVotes.induct)
  case (2 H v c vs st)
  then obtain st1 where c1: "castVote H True True v c st = Inr st1" and r: "castVotes H vs st1 = Inr st'"
    by (blast elim: castVotes_step)
  have "chain_ok H (blocks (fst st1))" using chain_ok_castVote "2.prems"(2) c1
    by (metis prod.collapse)
  moreover have "length (blocks (fst st1)) = Suc (length (blocks (fst st)))" using castVote_blocks c1
    by (metis length_append_singleton prod.collapse)
  ultimately show ?case using "2.IH" [OF c1 r] by simp
qed simp

lemma castVotes_root:
  "castVotes H votes st = Inr st' \<Longrightarrow> votes \<noteq> [] \<Longrightarrow> root_ok H (fst st')"
proof (induction H votes st rule: castVotes.induct)
  case (2 H v c vs st)
  then obtain st1 where c1: "castVote H True True v c st = Inr st1" and r: "castVotes H vs st1 = Inr st'"
    by (blast elim: castVotes_step)
  show ?case
  proof (cases "vs = []")
    case True
    with r c1 castVote_root show ?thesis by (metis castVotes.simps(1) old.sum.inject(2) prod.collapse)
  qed (use "2.IH" [OF c1 r] in simp)
qed simp

lemma castVotes_ballots:
  "castVotes H votes st = Inr st' \<Longrightarrow>
   map (\<lambda>b. (bvoterID b, candID b)) (blocks (fst st')) = map (\<lambda>b. (bvoterID b, candID b)) (blocks (fst st)) @ votes"
proof (induction H votes st rule: castVotes.induct)
  case (2 H v c vs st)
  then obtain st1 where c1: "castVote H True True v c st = Inr st1" and r: "castVotes H vs st1 = Inr st'"
    by (blast elim: castVotes_step)
  show ?case using "2.IH" [OF c1 r] castVote_blocks [of H True v c "fst st" "snd st" "fst st1" "snd st1"] c1 by simp
qed simp

lemma calculateMerkleRoot_Inl:
  "calculateMerkleRoot H bs = Inl e \<longleftrightarrow>
   (bs = [] \<and> e = MerkleEmpty) \<or> (MAX_MERKLE_TREE_SIZE < length bs \<and> e = MerkleOverflow)"
  by (auto simp: calculateMerkleRoot_def Let_def MAX_MERKLE_TREE_SIZE_def)

lemma castVote_Inr:
  "length (blocks bc) < MAX_MERKLE_TREE_SIZE \<Longrightarrow> \<exists>bc' f'. castVote H True ok v c (bc, f) = Inr (bc', f')"
  by (simp add: castVote.simps addToMerkleTree_def Let_def calculateMerkleRoot_def)

subsection \<open>Properties of the ledger\<close>

text \<open>C10. Appending keeps the chain linked: if every block of the ledger stores the
  digest of its predecessor's \<open>toString\<close> (the first, of the empty input), then so
  does every block of the ledger \<open>castVote\<close> returns.\<close>

theorem castVote_chain_ok:
  "chain_ok H (blocks bc) \<Longrightarrow> castVote H alloc ok v c (bc, f) = Inr (bc', f') \<Longrightarrow> chain_ok H (blocks bc')"
  by (rule chain_ok_castVote)

theorem castVote_chain_ok_witness:
  "chain_ok (\<lambda>x::byte list. x) (blocks (initializeBlockchain None [])) \<and>
   castVote (\<lambda>x::byte list. x) True True [86] [67] (initializeBlockchain None [], None) = Inr (fst (projr (castVote (\<lambda>x::byte list. x) True True [86] [67] (initializeBlockchain None [], None))), snd (projr (castVote (\<lambda>x::byte list. x) True True [86] [67] (initializeBlockchain None [], None)))) \<and>
   chain_ok (\<lambda>x::byte list. x) (blocks (fst (projr (castVote (\<lambda>x::byte list. x) True True [86] [67] (initializeBlockchain None [], None)))))"
  using castVote_chain_ok [where H = "(\<lambda>x::byte list. x)" and bc = "initializeBlockchain None []" and alloc = True and ok = True
      and v = "[86]" and c = "[67]" and f = None and bc' = "fst (projr (castVote (\<lambda>x::byte list. x) True True [86] [67] (initializeBlockchain None [], None)))" and f' = "snd (projr (castVote (\<lambda>x::byte list. x) True True [86] [67] (initializeBlockchain None [], None)))"]
  by (simp add: castVote.simps Let_def initializeBlockchain_def loadBlockchainFromFile_def chainHash_def addToMerkleTree_def calculateMerkleRoot_def merkle_levels.simps merkle_pass.simps root_ok_def chain_ok_def hashCompare_def MAX_MERKLE_TREE_SIZE_def contentHash_def hashInput_def toString_def c_str_def verifyChain_def)

text \<open>C11. After a successful \<open>castVote\<close> the stored Merkle root is the root of the
  ledger's blocks, so the integrity check of the tally passes on it, and the ledger
  file holds the new ledger (when it could be opened).\<close>

theorem castVote_root_ok:
  "castVote H True ok v c (bc, f) = Inr (bc', f') \<Longrightarrow> root_ok H bc' \<and> f' = saveBlockchainToFile ok bc' f"
  by (rule castVote_root)

theorem castVote_root_ok_witness:
  "castVote (\<lambda>x::byte list. x) True True [86] [67] (initializeBlockchain None [], None) = Inr (fst (projr (castVote (\<lambda>x::byte list. x) True True [86] [67] (initializeBlockchain None [], None))), snd (projr (castVote (\<lambda>x::byte list. x) True True [86] [67] (initializeBlockchain None [], None)))) \<and>
   root_ok (\<lambda>x::byte list. x) (fst (projr (castVote (\<lambda>x::byte list. x) True True [86] [67] (initializeBlockchain None [], None)))) \<and>
   snd (projr (castVote (\<lambda>x::byte list. x) True True [86] [67] (initializeBlockchain None [], None))) = saveBlockchainToFile True (fst (projr (castVote (\<lambda>x::byte list. x) True True [86] [67] (initializeBlockchain None [], None)))) None"
  using castVote_root_ok [where H = "(\<lambda>x::byte list. x)" and bc = "initializeBlockchain None []" and ok = True
      and v = "[86]" and c = "[67]" and f = None and bc' = "fst (projr (castVote (\<lambda>x::byte list. x) True True [86] [67] (initializeBlockchain None [], None)))" and f' = "snd (projr (castVote (\<lambda>x::byte list. x) True True [86] [67] (initializeBlockchain None [], None)))"]
  by (simp add: castVote.simps Let_def initializeBlockchain_def loadBlockchainFromFile_def chainHash_def addToMerkleTree_def calculateMerkleRoot_def merkle_levels.simps merkle_pass.simps root_ok_def chain_ok_def hashCompare_def MAX_MERKLE_TREE_SIZE_def contentHash_def hashInput_def toString_def c_str_def verifyChain_def)

text \<open>C28. \<open>castVote\<close> fails exactly when the ledger already holds 64 blocks: the new
  block is appended anyway and the root computation then overruns \<open>temp_tree\<close>.
  There is no explicit rejection; below the capacity it always succeeds, and a failed
  allocation of the block returns the ledger unchanged.\<close>

theorem castVote_error_iff:
  "castVote H alloc ok v c (bc, f) = Inl e \<longleftrightarrow>
   alloc \<and> MAX_MERKLE_TREE_SIZE \<le> length (blocks bc) \<and> e = MerkleOverflow"
  by (auto simp: castVote.simps addToMerkleTree_def Let_def calculateMerkleRoot_def
      MAX_MERKLE_TREE_SIZE_def split: sum.splits if_splits)

text \<open>C13. A ledger built by casting one or more votes from an empty start verifies:
  \<open>verifyChain\<close> answers 1 with every link verified.\<close>

theorem verifyChain_after_votes:
  "castVotes H votes (initializeBlockchain None junk, f) = Inr (bc, f') \<Longrightarrow> votes \<noteq> [] \<Longrightarrow>
   verifyChain H bc = (1, replicate (length votes - 1) True)"
proof -
  assume r: "castVotes H votes (initializeBlockchain None junk, f) = Inr (bc, f')" and ne: "votes \<noteq> []"
  have "chain_ok H (blocks (initializeBlockchain None junk))"
    by (simp add: initializeBlockchain_def loadBlockchainFromFile_def chain_ok_def)
  with r have "chain_ok H (blocks bc)" "length (blocks bc) = length votes"
    using castVotes_chain [OF r] by (auto simp: initializeBlockchain_def loadBlockchainFromFile_def)
  moreover from this(2) ne have "blocks bc \<noteq> []" by auto
  ultimately show ?thesis
    by (simp add: verifyChain_def chain_ok_def linked_verdicts list_all_iff)
qed

theorem verifyChain_after_votes_witness:
  "castVotes (\<lambda>x::byte list. x) [([86], [67]), ([87], [68])] (initializeBlockchain None [1], None) = Inr (fst (projr (castVotes (\<lambda>x::byte list. x) [([86], [67]), ([87], [68])] (initializeBlockchain None [1], None))), snd (projr (castVotes (\<lambda>x::byte list. x) [([86], [67]), ([87], [68])] (initializeBlockchain None [1], None)))) \<and>
   verifyChain (\<lambda>x::byte list. x) (fst (projr (castVotes (\<lambda>x::byte list. x) [([86], [67]), ([87], [68])] (initializeBlockchain None [1], None)))) = (1, [True])"
  using verifyChain_after_votes [where H = "(\<lambda>x::byte list. x)" and votes = "[([86], [67]), ([87], [68])]" and junk = "[1]" and f = None
      and bc = "fst (projr (castVotes (\<lambda>x::byte list. x) [([86], [67]), ([87], [68])] (initializeBlockchain None [1], None)))" and f' = "snd (projr (castVotes (\<lambda>x::byte list. x) [([86], [67]), ([87], [68])] (initializeBlockchain None [1], None)))"]
  by (simp add: castVote.simps Let_def initializeBlockchain_def loadBlockchainFromFile_def chainHash_def addToMerkleTree_def calculateMerkleRoot_def merkle_levels.simps merkle_pass.simps root_ok_def chain_ok_def hashCompare_def MAX_MERKLE_TREE_SIZE_def contentHash_def hashInput_def toString_def c_str_def verifyChain_def)


lemma link_verdicts_cong:
  "map hashInput bs' = map hashInput bs \<Longrightarrow> map prevhash bs' = map prevhash bs \<Longrightarrow>
   link_verdicts H bs' = link_verdicts H bs"
proof (rule link_verdicts_eqI)
  assume h: "map hashInput bs' = map hashInput bs" and p: "map prevhash bs' = map prevhash bs"
  then show l: "length bs' = length bs" by (metis length_map)
  fix i assume "Suc i < length bs"
  then have "hashInput (bs' ! i) = hashInput (bs ! i)" "prevhash (bs' ! Suc i) = prevhash (bs ! Suc i)"
    using h p l by (metis Suc_lessD nth_map)+
  then show "hashCompare (H (hashInput (bs' ! i))) (prevhash (bs' ! Suc i)) =
             hashCompare (H (hashInput (bs ! i))) (prevhash (bs ! Suc i))" by simp
qed

lemma calculateMerkleRoot_cong:
  "map hashInput bs' = map hashInput bs \<Longrightarrow> calculateMerkleRoot H bs' = calculateMerkleRoot H bs"
proof -
  assume h: "map hashInput bs' = map hashInput bs"
  then have "map (contentHash H) bs' = map (contentHash H) bs"
    by (metis (no_types, lifting) contentHash_def map_eq_conv map_map comp_apply)
  moreover have "length bs' = length bs" using h by (metis length_map)
  ultimately show ?thesis by (simp add: calculateMerkleRoot_def)
qed

text \<open>On an empty ledger \<open>verifyChain\<close> answers \<open>-1\<close>, not the
  "trivially verified" of the spec; it answers \<open>-1\<close> on no other ledger.\<close>

theorem verifyChain_empty: "fst (verifyChain H bc) = -1 \<longleftrightarrow> blocks bc = []"
  by (simp add: verifyChain_def Let_def)

text \<open>C31. Changing the voter or candidate identifier of a block \<open>k\<close> that has a
  successor (and keeping its stored chain hash) in a linked ledger, such that its digest
  changes, makes \<open>verifyChain\<close> flag exactly link \<open>k\<close> and verify every other link.\<close>

theorem verifyChain_tamper_exact:
  assumes ok: "chain_ok H bs" and b: "blocks bc = bs" and k: "Suc k < length bs"
    and ph: "prevhash b' = prevhash (bs ! k)"
    and diff: "\<not> hashCompare (H (hashInput b')) (H (hashInput (bs ! k)))"
  shows "verifyChain H (bc\<lparr>blocks := bs[k := b']\<rparr>) = (0, (replicate (length bs - 1) True)[k := False])"
proof -
  have lk: "\<And>i. Suc i < length bs \<Longrightarrow> prevhash (bs ! Suc i) = H (hashInput (bs ! i))"
    using ok by (simp add: chain_ok_def linked_nth)
  have v: "link_verdicts H (bs[k := b']) = (replicate (length bs - 1) True)[k := False]"
  proof (rule nth_equalityI)
    show "length (link_verdicts H (bs[k := b'])) = length ((replicate (length bs - 1) True)[k := False])"
      by (simp add: length_link_verdicts)
  next
    fix i assume "i < length (link_verdicts H (bs[k := b']))"
    then have i: "Suc i < length bs" by (simp add: length_link_verdicts)
    consider "i = k" | "Suc i = k" | "i \<noteq> k" "Suc i \<noteq> k" by blast
    then show "link_verdicts H (bs[k := b']) ! i = (replicate (length bs - 1) True)[k := False] ! i"
    proof cases
      case 1
      then show ?thesis using i k diff lk [of k] by (simp add: nth_link_verdicts)
    next
      case 2
      then show ?thesis using i k ph lk [of i] by (simp add: nth_link_verdicts hashCompare_def)
    next
      case 3
      then show ?thesis using i lk [of i] by (simp add: nth_link_verdicts hashCompare_def)
    qed
  qed
  have "k < length bs - 1" using k by simp
  then have "\<not> list_all id ((replicate (length bs - 1) True)[k := False])"
    by (auto simp: list_all_length intro!: exI [where x = k])
  with v k b show ?thesis by (auto simp: verifyChain_def)
qed

theorem verifyChain_tamper_exact_witness:
  "chain_ok (\<lambda>x::byte list. x) [\<lparr>bvoterID = [86], candID = [67], prevhash = []\<rparr>,
                \<lparr>bvoterID = [87], candID = [67], prevhash = [86, 67]\<rparr>] \<and>
   verifyChain (\<lambda>x::byte list. x) (\<lparr>blocks = [\<lparr>bvoterID = [86], candID = [67], prevhash = []\<rparr>,
                \<lparr>bvoterID = [87], candID = [67], prevhash = [86, 67]\<rparr>], merkle_root = [], merkle_tree = []\<rparr>
       \<lparr>blocks := [\<lparr>bvoterID = [86], candID = [67], prevhash = []\<rparr>,
                \<lparr>bvoterID = [87], candID = [67], prevhash = [86, 67]\<rparr>][0 := \<lparr>bvoterID = [86], candID = [68], prevhash = []\<rparr>]\<rparr>) =
     (0, [False])"
  using verifyChain_tamper_exact [of "(\<lambda>x::byte list. x)" "[\<lparr>bvoterID = [86], candID = [67], prevhash = []\<rparr>,
                \<lparr>bvoterID = [87], candID = [67], prevhash = [86, 67]\<rparr>]"
      "\<lparr>blocks = [\<lparr>bvoterID = [86], candID = [67], prevhash = []\<rparr>,
                \<lparr>bvoterID = [87], candID = [67], prevhash = [86, 67]\<rparr>], merkle_root = [], merkle_tree = []\<rparr>"
      0 "\<lparr>bvoterID = [86], candID = [68], prevhash = []\<rparr>"]
  by (simp add: chain_ok_def hashCompare_def hashInput_def toString_def c_str_def SHA256_DIGEST_LENGTH_def)

text \<open>Each verdict of \<open>verifyChain\<close> depends only on the two blocks of its link:
  replacing block \<open>k\<close> by anything leaves the verdict of every link \<open>i\<close> that does
  not touch block \<open>k\<close> (\<open>i \<noteq> k\<close>, \<open>i + 1 \<noteq> k\<close>) unchanged, and verification goes on
  past a failed link.\<close>

theorem verifyChain_tamper_local:
  "Suc i < length (blocks bc) \<Longrightarrow> i \<noteq> k \<Longrightarrow> Suc i \<noteq> k \<Longrightarrow>
   snd (verifyChain H (bc\<lparr>blocks := (blocks bc)[k := b']\<rparr>)) ! i = snd (verifyChain H bc) ! i"
  by (auto simp: verifyChain_def Let_def nth_link_verdicts)

theorem verifyChain_tamper_local_witness:
  "Suc 0 < length [\<lparr>bvoterID = [86], candID = [67], prevhash = []\<rparr>, \<lparr>bvoterID = [87], candID = [67], prevhash = [86, 67]\<rparr>,
                   \<lparr>bvoterID = [88], candID = [67], prevhash = [87, 67, 86, 67]\<rparr>] \<and>
   snd (verifyChain (\<lambda>x::byte list. x) \<lparr>blocks = [\<lparr>bvoterID = [86], candID = [67], prevhash = []\<rparr>,
       \<lparr>bvoterID = [87], candID = [67], prevhash = [86, 67]\<rparr>, \<lparr>bvoterID = [88], candID = [67], prevhash = [87, 67, 86, 67]\<rparr>][0 := \<lparr>bvoterID = [90], candID = [67], prevhash = []\<rparr>],
       merkle_root = [], merkle_tree = []\<rparr>) ! 1 = True"
  using verifyChain_tamper_local [of 1 "\<lparr>blocks = [\<lparr>bvoterID = [86], candID = [67], prevhash = []\<rparr>,
       \<lparr>bvoterID = [87], candID = [67], prevhash = [86, 67]\<rparr>, \<lparr>bvoterID = [88], candID = [67], prevhash = [87, 67, 86, 67]\<rparr>],
       merkle_root = [], merkle_tree = []\<rparr>" 0 "(\<lambda>x::byte list. x)" "\<lparr>bvoterID = [90], candID = [67], prevhash = []\<rparr>"]
  by (simp add: verifyChain_def hashCompare_def hashInput_def toString_def c_str_def)

text \<open>C32. The chain hash commits to the predecessor, so nothing commits to the last
  block's identifiers: replacing the last block by any block with the same stored
  chain hash leaves the result of \<open>verifyChain\<close> unchanged.\<close>

theorem verifyChain_blind_last:
  "prevhash b' = prevhash b \<Longrightarrow>
   verifyChain H (bc\<lparr>blocks := bs @ [b']\<rparr>) = verifyChain H (bc\<lparr>blocks := bs @ [b]\<rparr>)"
proof -
  assume p: "prevhash b' = prevhash b"
  have "link_verdicts H (bs @ [b']) = link_verdicts H (bs @ [b])"
  proof (rule link_verdicts_eqI)
    fix i assume "Suc i < length (bs @ [b])"
    then show "hashCompare (H (hashInput ((bs @ [b']) ! i))) (prevhash ((bs @ [b']) ! Suc i)) =
               hashCompare (H (hashInput ((bs @ [b]) ! i))) (prevhash ((bs @ [b]) ! Suc i))"
      using p by (cases "Suc i < length bs") (auto simp: nth_append)
  qed simp
  then show ?thesis by (simp add: verifyChain_def)
qed

theorem verifyChain_blind_last_witness:
  "verifyChain (\<lambda>x::byte list. x) (\<lparr>blocks = [], merkle_root = [], merkle_tree = []\<rparr>
      \<lparr>blocks := [\<lparr>bvoterID = [86], candID = [67], prevhash = []\<rparr>, \<lparr>bvoterID = [87], candID = [68], prevhash = [86, 67]\<rparr>]\<rparr>) =
   verifyChain (\<lambda>x::byte list. x) (\<lparr>blocks = [], merkle_root = [], merkle_tree = []\<rparr>
      \<lparr>blocks := [\<lparr>bvoterID = [86], candID = [67], prevhash = []\<rparr>, \<lparr>bvoterID = [87], candID = [67], prevhash = [86, 67]\<rparr>]\<rparr>)"
  using verifyChain_blind_last [where b' = "\<lparr>bvoterID = [87], candID = [68], prevhash = [86, 67]\<rparr>"
      and b = "\<lparr>bvoterID = [87], candID = [67], prevhash = [86, 67]\<rparr>" and H = "\<lambda>x::byte list. x"
      and bc = "\<lparr>blocks = [], merkle_root = [], merkle_tree = []\<rparr>"
      and bs = "[\<lparr>bvoterID = [86], candID = [67], prevhash = []\<rparr>]"]
  by simp

text \<open>C33. \<open>toString\<close> concatenates the voter and candidate identifiers without a
  separator, so moving the boundary between them (voter \<open>AB\<close> for candidate \<open>C\<close>
  becoming voter \<open>A\<close> for candidate \<open>BC\<close>) changes the vote while neither
  \<open>verifyChain\<close> nor the Merkle root can see it.\<close>

theorem boundary_shift_undetected:
  assumes "bvoterID b' @ candID b' = bvoterID b @ candID b" "prevhash b' = prevhash b"
  shows "verifyChain H (bc\<lparr>blocks := pre @ b' # post\<rparr>) = verifyChain H (bc\<lparr>blocks := pre @ b # post\<rparr>) \<and>
         calculateMerkleRoot H (pre @ b' # post) = calculateMerkleRoot H (pre @ b # post)"
proof -
  have "toString b' = toString b" using assms by (metis append.assoc toString_def)
  then have "hashInput b' = hashInput b" by (simp add: hashInput_def)
  then have h: "map hashInput (pre @ b' # post) = map hashInput (pre @ b # post)"
    and p: "map prevhash (pre @ b' # post) = map prevhash (pre @ b # post)"
    using assms(2) by simp_all
  show ?thesis
    using link_verdicts_cong [OF h p, of H] calculateMerkleRoot_cong [OF h, of H]
    by (simp add: verifyChain_def)
qed

theorem boundary_shift_undetected_witness:
  "candID \<lparr>bvoterID = [65], candID = [66, 67], prevhash = [1]\<rparr> \<noteq> candID \<lparr>bvoterID = [65, 66], candID = [67], prevhash = [1]\<rparr> \<and>
   calculateMerkleRoot (\<lambda>x::byte list. x) [\<lparr>bvoterID = [65], candID = [66, 67], prevhash = [1]\<rparr>] =
   calculateMerkleRoot (\<lambda>x::byte list. x) [\<lparr>bvoterID = [65, 66], candID = [67], prevhash = [1]\<rparr>]"
  using boundary_shift_undetected [where b' = "\<lparr>bvoterID = [65], candID = [66, 67], prevhash = [1]\<rparr>"
      and b = "\<lparr>bvoterID = [65, 66], candID = [67], prevhash = [1]\<rparr>" and H = "\<lambda>x::byte list. x"
      and bc = "\<lparr>blocks = [], merkle_root = [], merkle_tree = []\<rparr>" and pre = "[]" and post = "[]"]
  by simp

end
