(* ===== verification/Tally.thy ===== *)
theory Tally
  imports Ledger
begin

text \<open>
  The tally engine, \<open>countVotes\<close> of \<open>src/blockchain.c\<close>. It recomputes the Merkle
  root of the ledger, compares it with the stored root (\<open>hashCompare\<close>) and only on a
  match counts, for every block, the first roster entry whose identifier equals the
  block's candidate identifier under \<open>strcmp\<close>; blocks for no roster entry are
  skipped. The counters are the C array \<open>candidate_votes[MAX_CANDIDATES]\<close>, here a
  list of as many naturals as roster entries. The result type records the outcomes the
  C function prints: the counts, an integrity failure, or one of the undefined
  behaviours it can reach (root of an empty or oversized ledger, a roster longer than
  the counter array).
\<close>

record Candidate =
  cand_id :: "byte list"
  name :: "byte list"

definition MAX_CANDIDATES :: nat where
  "MAX_CANDIDATES = 8"

datatype tally_error = MerkleFailure merkle_error | IntegrityDisrupted | CandidateOverflow

text \<open>The inner \<open>for\<close> loop with its \<open>break\<close>: the index of the first roster entry
  matching the candidate identifier.\<close>

fun find_candidate :: "byte list \<Rightarrow> Candidate list \<Rightarrow> nat \<Rightarrow> nat option" where
  "find_candidate c [] i = None"
| "find_candidate c (x # xs) i = (if strcmp c (cand_id x) = 0 then Some i else find_candidate c xs (Suc i))"

definition count_block :: "Candidate list \<Rightarrow> nat list \<Rightarrow> block \<Rightarrow> nat list" where
  "count_block roster counts b =
     (case find_candidate (candID b) roster 0 of None \<Rightarrow> counts | Some i \<Rightarrow> counts[i := Suc (counts ! i)])"

definition tally_blocks :: "Candidate list \<Rightarrow> block list \<Rightarrow> nat list" where
  "tally_blocks roster bs = foldl (count_block roster) (replicate (length roster) 0) bs"

definition countVotes :: "hashfn \<Rightarrow> blockchain \<Rightarrow> Candidate list \<Rightarrow> tally_error + nat list" where
  "countVotes H bc roster =
     (case calculateMerkleRoot H (blocks bc) of
        Inl e \<Rightarrow> Inl (MerkleFailure e)
      | Inr r \<Rightarrow>
          if \<not> hashCompare r (merkle_root bc) then Inl IntegrityDisrupted
          else if MAX_CANDIDATES < length roster then Inl CandidateOverflow
          else Inr (tally_blocks roster (blocks bc)))"

text \<open>The contract of the tally: the roster has distinct C-string identifiers, and
  entry \<open>i\<close> receives the number of blocks cast for its identifier.\<close>

definition roster_ok :: "Candidate list \<Rightarrow> bool" where
  "roster_ok roster \<longleftrightarrow> distinct (map cand_id roster) \<and> list_all (\<lambda>c. cstring (cand_id c)) roster"

definition tally_spec :: "Candidate list \<Rightarrow> block list \<Rightarrow> nat list" where
  "tally_spec roster bs = map (\<lambda>c. count_list (map candID bs) (cand_id c)) roster"


subsection \<open>The counting loop\<close>

lemma find_candidate_Suc: "find_candidate c xs (Suc i) = map_option Suc (find_candidate c xs i)"
  by (induction xs arbitrary: i) auto

lemma find_candidate_bound: "find_candidate c xs i = Some j \<Longrightarrow> i \<le> j \<and> j < i + length xs"
  by (induction xs arbitrary: i) (fastforce split: if_splits)+

lemma find_candidate_first:
  "find_candidate c xs 0 = Some j \<Longrightarrow> strcmp c (cand_id (xs ! j)) = 0 \<and> (\<forall>k < j. strcmp c (cand_id (xs ! k)) \<noteq> 0)"
proof (induction xs arbitrary: j)
  case (Cons x xs)
  show ?case
  proof (cases "strcmp c (cand_id x) = 0")
    case False
    with Cons.prems obtain j' where "find_candidate c xs 0 = Some j'" "j = Suc j'"
      by (auto simp: find_candidate_Suc)
    with Cons.IH False show ?thesis by (auto simp: less_Suc_eq_0_disj)
  qed (use Cons.prems in auto)
qed simp

lemma find_candidate_iff:
  assumes "roster_ok xs" "cstring c" "j < length xs"
  shows "find_candidate c xs 0 = Some j \<longleftrightarrow> cand_id (xs ! j) = c"
  using assms
proof (induction xs arbitrary: j)
  case (Cons x xs)
  then have ok: "roster_ok xs" "cstring (cand_id x)" "cand_id x \<notin> set (map cand_id xs)"
    by (auto simp: roster_ok_def)
  show ?case
  proof (cases j)
    case 0
    then show ?thesis using Cons.prems ok by (auto simp: strcmp_eq_0_iff find_candidate_Suc)
  next
    case (Suc j')
    then have "j' < length xs" using Cons.prems by simp
    then have "cand_id (xs ! j') \<in> set (map cand_id xs)" by simp
    then show ?thesis using Cons.IH [OF ok(1) Cons.prems(2) \<open>j' < length xs\<close>] Cons.prems(2) ok Suc
      by (auto simp: strcmp_eq_0_iff find_candidate_Suc)
  qed
qed simp

lemma length_count_block [simp]: "length (count_block roster cs b) = length cs"
  by (simp add: count_block_def split: option.split)

lemma length_foldl_count [simp]: "length (foldl (count_block roster) cs bs) = length cs"
  by (induction bs arbitrary: cs) simp_all

lemma foldl_count_nth:
  "length cs = length roster \<Longrightarrow> i < length roster \<Longrightarrow>
   foldl (count_block roster) cs bs ! i = cs ! i + length (filter (\<lambda>b. find_candidate (candID b) roster 0 = Some i) bs)"
proof (induction bs arbitrary: cs)
  case (Cons b bs)
  have "count_block roster cs b ! i = cs ! i + (if find_candidate (candID b) roster 0 = Some i then 1 else 0)"
    using Cons.prems by (auto simp: count_block_def nth_list_update split: option.split)
  then show ?case using Cons by simp
qed simp

lemma length_tally_blocks [simp]: "length (tally_blocks roster bs) = length roster"
  by (simp add: tally_blocks_def)

lemma tally_blocks_nth:
  "i < length roster \<Longrightarrow>
   tally_blocks roster bs ! i = length (filter (\<lambda>b. find_candidate (candID b) roster 0 = Some i) bs)"
  by (simp add: tally_blocks_def foldl_count_nth)

lemma count_list_filter: "count_list (map f xs) x = length (filter (\<lambda>b. f b = x) xs)"
  by (induction xs) auto

lemma tally_blocks_spec:
  "roster_ok roster \<Longrightarrow> list_all block_ok bs \<Longrightarrow> tally_blocks roster bs = tally_spec roster bs"
proof (rule nth_equalityI)
  fix i assume ok: "roster_ok roster" "list_all block_ok bs" and i: "i < length (tally_blocks roster bs)"
  then have "\<And>b. b \<in> set bs \<Longrightarrow> find_candidate (candID b) roster 0 = Some i \<longleftrightarrow> candID b = cand_id (roster ! i)"
    by (auto simp: find_candidate_iff list_all_iff block_ok_def)
  then have "filter (\<lambda>b. find_candidate (candID b) roster 0 = Some i) bs =
             filter (\<lambda>b. candID b = cand_id (roster ! i)) bs"
    by (rule filter_cong [OF refl])
  then show "tally_blocks roster bs ! i = tally_spec roster bs ! i"
    using i by (simp add: tally_blocks_nth tally_spec_def count_list_filter)
qed (simp add: tally_spec_def)


lemma sum_count_list:
  "distinct ys \<Longrightarrow> sum_list (map (count_list xs) ys) = length (filter (\<lambda>x. x \<in> set ys) xs)"
proof (induction ys)
  case (Cons y ys)
  have "length (filter (\<lambda>x. x = y \<or> x \<in> set ys) xs) = count_list xs y + length (filter (\<lambda>x. x \<in> set ys) xs)"
    using Cons.prems by (induction xs) auto
  then show ?case using Cons by simp
qed simp

lemma countVotes_Inr:
  "countVotes H bc roster = Inr counts \<longleftrightarrow>
   root_ok H bc \<and> length roster \<le> MAX_CANDIDATES \<and> counts = tally_blocks roster (blocks bc)"
  by (auto simp: countVotes_def root_ok_def split: sum.splits)


subsection \<open>Properties of the tally\<close>

text \<open>C14. Whenever \<open>countVotes\<close> reports counts for a roster of distinct identifiers
  over a ledger of well-formed blocks, entry \<open>i\<close> is the number of blocks cast for
  candidate \<open>i\<close> (refinement of the abstract tally \<open>tally_spec\<close>).\<close>

theorem countVotes_refines:
  "roster_ok roster \<Longrightarrow> list_all block_ok (blocks bc) \<Longrightarrow> countVotes H bc roster = Inr counts \<Longrightarrow>
   counts = tally_spec roster (blocks bc)"
  by (simp add: countVotes_Inr tally_blocks_spec)

theorem countVotes_refines_witness:
  "roster_ok [\<lparr>cand_id = [67], name = [65]\<rparr>, \<lparr>cand_id = [68], name = [66]\<rparr>] \<and> list_all block_ok (blocks (fst (projr (castVotes (\<lambda>x::byte list. x) [([86], [67]), ([87], [68]), ([88], [67])] (initializeBlockchain None [], None))))) \<and>
   countVotes (\<lambda>x::byte list. x) (fst (projr (castVotes (\<lambda>x::byte list. x) [([86], [67]), ([87], [68]), ([88], [67])] (initializeBlockchain None [], None)))) [\<lparr>cand_id = [67], name = [65]\<rparr>, \<lparr>cand_id = [68], name = [66]\<rparr>] = Inr [2, 1] \<and> [2, 1] = tally_spec [\<lparr>cand_id = [67], name = [65]\<rparr>, \<lparr>cand_id = [68], name = [66]\<rparr>] (blocks (fst (projr (castVotes (\<lambda>x::byte list. x) [([86], [67]), ([87], [68]), ([88], [67])] (initializeBlockchain None [], None)))))"
  using countVotes_refines [where roster = "[\<lparr>cand_id = [67], name = [65]\<rparr>, \<lparr>cand_id = [68], name = [66]\<rparr>]" and bc = "fst (projr (castVotes (\<lambda>x::byte list. x) [([86], [67]), ([87], [68]), ([88], [67])] (initializeBlockchain None [], None)))" and H = "(\<lambda>x::byte list. x)" and counts = "[2, 1]"]
  by (simp add: castVote.simps Let_def initializeBlockchain_def loadBlockchainFromFile_def chainHash_def addToMerkleTree_def calculateMerkleRoot_def merkle_levels.simps merkle_pass.simps hashCompare_def MAX_MERKLE_TREE_SIZE_def contentHash_def hashInput_def toString_def c_str_def roster_ok_def block_ok_def countVotes_def tally_blocks_def count_block_def
      MAX_CANDIDATES_def tally_spec_def)

text \<open>C34. \<open>countVotes\<close> reports an integrity failure exactly when the ledger has a
  Merkle root and it differs, in its first 32 bytes, from the stored root.\<close>

theorem countVotes_integrity:
  "countVotes H bc roster = Inl IntegrityDisrupted \<longleftrightarrow>
   (\<exists>r. calculateMerkleRoot H (blocks bc) = Inr r \<and> \<not> hashCompare r (merkle_root bc))"
  by (auto simp: countVotes_def split: sum.splits)

text \<open>When the stored root matches and the roster fits the counter array,
  \<open>countVotes\<close> always produces the counts of the counting loop.\<close>

theorem countVotes_succeeds:
  "root_ok H bc \<Longrightarrow> length roster \<le> MAX_CANDIDATES \<Longrightarrow>
   countVotes H bc roster = Inr (tally_blocks roster (blocks bc))"
  by (simp add: countVotes_Inr)

theorem countVotes_succeeds_witness:
  "root_ok (\<lambda>x::byte list. x) (fst (projr (castVotes (\<lambda>x::byte list. x) [([86], [67]), ([87], [68]), ([88], [67])] (initializeBlockchain None [], None)))) \<and> length [\<lparr>cand_id = [67], name = [65]\<rparr>, \<lparr>cand_id = [68], name = [66]\<rparr>] \<le> MAX_CANDIDATES \<and>
   countVotes (\<lambda>x::byte list. x) (fst (projr (castVotes (\<lambda>x::byte list. x) [([86], [67]), ([87], [68]), ([88], [67])] (initializeBlockchain None [], None)))) [\<lparr>cand_id = [67], name = [65]\<rparr>, \<lparr>cand_id = [68], name = [66]\<rparr>] = Inr (tally_blocks [\<lparr>cand_id = [67], name = [65]\<rparr>, \<lparr>cand_id = [68], name = [66]\<rparr>] (blocks (fst (projr (castVotes (\<lambda>x::byte list. x) [([86], [67]), ([87], [68]), ([88], [67])] (initializeBlockchain None [], None))))))"
  using countVotes_succeeds [where roster = "[\<lparr>cand_id = [67], name = [65]\<rparr>, \<lparr>cand_id = [68], name = [66]\<rparr>]" and bc = "fst (projr (castVotes (\<lambda>x::byte list. x) [([86], [67]), ([87], [68]), ([88], [67])] (initializeBlockchain None [], None)))" and H = "(\<lambda>x::byte list. x)"]
  by (simp add: castVote.simps Let_def initializeBlockchain_def loadBlockchainFromFile_def chainHash_def addToMerkleTree_def calculateMerkleRoot_def merkle_levels.simps merkle_pass.simps hashCompare_def MAX_MERKLE_TREE_SIZE_def contentHash_def hashInput_def toString_def c_str_def root_ok_def MAX_CANDIDATES_def)

text \<open>C35. Counting stops at the first roster entry that matches: when two roster
  entries share an identifier, the later one always receives zero votes.\<close>

theorem countVotes_first_match:
  "countVotes H bc roster = Inr counts \<Longrightarrow> i < j \<Longrightarrow> j < length roster \<Longrightarrow>
   cand_id (roster ! i) = cand_id (roster ! j) \<Longrightarrow> counts ! j = 0"
proof -
  assume r: "countVotes H bc roster = Inr counts" and ij: "i < j" "j < length roster"
    and same: "cand_id (roster ! i) = cand_id (roster ! j)"
  have "\<And>b :: block. find_candidate (candID b) roster 0 \<noteq> Some j"
    using find_candidate_first ij same by fastforce
  then have "filter (\<lambda>b. find_candidate (candID b) roster 0 = Some j) (blocks bc) = []"
    by (simp add: filter_empty_conv)
  then show "counts ! j = 0"
    using r ij by (simp add: countVotes_Inr tally_blocks_nth)
qed

theorem countVotes_first_match_witness:
  "countVotes (\<lambda>x::byte list. x) (fst (projr (castVotes (\<lambda>x::byte list. x) [([86], [67]), ([87], [68]), ([88], [67])] (initializeBlockchain None [], None)))) [\<lparr>cand_id = [67], name = [65]\<rparr>, \<lparr>cand_id = [67], name = [66]\<rparr>] = Inr [2, 0] \<and>
   (0::nat) < 1 \<and> (1::nat) < length [\<lparr>cand_id = [67::byte], name = [65::byte]\<rparr>, \<lparr>cand_id = [67], name = [66]\<rparr>] \<and>
   cand_id ([\<lparr>cand_id = [67::byte], name = [65::byte]\<rparr>, \<lparr>cand_id = [67], name = [66]\<rparr>] ! 0) =
   cand_id ([\<lparr>cand_id = [67::byte], name = [65::byte]\<rparr>, \<lparr>cand_id = [67], name = [66]\<rparr>] ! 1) \<and>
   [2, 0::nat] ! 1 = 0"
  using countVotes_first_match [where roster = "[\<lparr>cand_id = [67], name = [65]\<rparr>, \<lparr>cand_id = [67], name = [66]\<rparr>]"
      and bc = "fst (projr (castVotes (\<lambda>x::byte list. x) [([86], [67]), ([87], [68]), ([88], [67])] (initializeBlockchain None [], None)))" and H = "(\<lambda>x::byte list. x)" and counts = "[2, 0]" and i = 0 and j = 1]
  by (simp add: castVote.simps Let_def initializeBlockchain_def loadBlockchainFromFile_def chainHash_def addToMerkleTree_def calculateMerkleRoot_def merkle_levels.simps merkle_pass.simps hashCompare_def MAX_MERKLE_TREE_SIZE_def contentHash_def hashInput_def toString_def c_str_def countVotes_def tally_blocks_def count_block_def MAX_CANDIDATES_def)

text \<open>Blocks cast for a candidate that is not on the roster are skipped without
  an error: the counts add up to the number of blocks whose candidate is listed.\<close>

theorem countVotes_total:
  "roster_ok roster \<Longrightarrow> list_all block_ok (blocks bc) \<Longrightarrow> countVotes H bc roster = Inr counts \<Longrightarrow>
   sum_list counts = length (filter (\<lambda>b. candID b \<in> cand_id ` set roster) (blocks bc))"
proof -
  assume ok: "roster_ok roster" "list_all block_ok (blocks bc)" and r: "countVotes H bc roster = Inr counts"
  then have "sum_list (map (count_list (map candID (blocks bc))) (map cand_id roster)) =
             length (filter (\<lambda>x. x \<in> set (map cand_id roster)) (map candID (blocks bc)))"
    by (intro sum_count_list) (simp add: roster_ok_def)
  then show ?thesis
    using ok r by (simp add: countVotes_Inr tally_blocks_spec tally_spec_def comp_def filter_map)
qed

theorem countVotes_total_witness:
  "roster_ok [\<lparr>cand_id = [67], name = [65]\<rparr>] \<and> list_all block_ok (blocks (fst (projr (castVotes (\<lambda>x::byte list. x) [([86], [67]), ([87], [68]), ([88], [67])] (initializeBlockchain None [], None))))) \<and>
   countVotes (\<lambda>x::byte list. x) (fst (projr (castVotes (\<lambda>x::byte list. x) [([86], [67]), ([87], [68]), ([88], [67])] (initializeBlockchain None [], None)))) [\<lparr>cand_id = [67], name = [65]\<rparr>] = Inr [2] \<and>
   sum_list [2::nat] = length (filter (\<lambda>b. candID b \<in> cand_id ` set [\<lparr>cand_id = [67::byte], name = [65::byte]\<rparr>]) (blocks (fst (projr (castVotes (\<lambda>x::byte list. x) [([86], [67]), ([87], [68]), ([88], [67])] (initializeBlockchain None [], None))))))"
  using countVotes_total [where roster = "[\<lparr>cand_id = [67], name = [65]\<rparr>]" and bc = "fst (projr (castVotes (\<lambda>x::byte list. x) [([86], [67]), ([87], [68]), ([88], [67])] (initializeBlockchain None [], None)))" and H = "(\<lambda>x::byte list. x)" and counts = "[2]"]
  by (simp add: castVote.simps Let_def initializeBlockchain_def loadBlockchainFromFile_def chainHash_def addToMerkleTree_def calculateMerkleRoot_def merkle_levels.simps merkle_pass.simps hashCompare_def MAX_MERKLE_TREE_SIZE_def contentHash_def hashInput_def toString_def c_str_def roster_ok_def block_ok_def countVotes_def tally_blocks_def count_block_def MAX_CANDIDATES_def)

end
