(* ===== verification/Roster.thy ===== *)
theory Roster
  imports Tally
begin

text \<open>
  The candidate roster \<open>candidates.txt\<close> of \<open>src/blockchain.c\<close>: \<open>addCandidate\<close>
  appends a line \<open>ID,Name\<close> with an identifier from \<open>generateUniqueID\<close>,
  \<open>clearAllCandidates\<close> truncates the file, and \<open>loadCandidatesFromFile\<close> reads it
  back into the roster array that \<open>countVotes\<close> counts against. The file is its byte
  list, \<open>None\<close> when it does not exist; a stream read by \<open>fgets\<close> is the byte list
  still to be read. \<open>rand()\<close> is the list of the values it returns.
  The loader reads the file in \<open>fgets\<close> chunks of at most 255 bytes, cuts each at its
  first newline, splits it with \<open>strtok(line, ",")\<close> and \<open>strtok(NULL, "")\<close>, keeps
  lines with both parts, and stops after \<open>MAX_CANDIDATES\<close> of them.
\<close>

text \<open>The bytes the roster format uses: \<open>','\<close>, \<open>'\n'\<close>, \<open>'-'\<close>.\<close>

definition comma :: byte where "comma = 44"
definition newline :: byte where "newline = 10"
definition dash :: byte where "dash = 45"

text \<open>\<open>fgets(buf, n, stream)\<close>: \<open>None\<close> at end of file, otherwise the bytes read (at
  most \<open>n - 1\<close>, through the first newline) and the rest of the stream.\<close>

definition fgets :: "nat \<Rightarrow> byte list \<Rightarrow> (byte list \<times> byte list) option" where
  "fgets n s =
     (if s = [] then None
      else
        let line = takeWhile (\<lambda>c. c \<noteq> newline) s;
            len = (if length line < length s then Suc (length line) else length line);
            k = min (n - 1) len
        in Some (take k s, drop k s))"

text \<open>The chunks \<open>while (fgets(line, sizeof(line), file) != NULL)\<close> reads.\<close>

function fgets_lines :: "byte list \<Rightarrow> byte list list" where
  "fgets_lines s = (case fgets 256 s of None \<Rightarrow> [] | Some (l, rest) \<Rightarrow> l # fgets_lines rest)"
  by pat_completeness auto

termination
proof (relation "measure length")
  fix s x l rest
  assume "fgets 256 s = Some x" "(l, rest) = x"
  then show "(rest, s) \<in> measure length"
    by (cases s) (auto simp: fgets_def Let_def split: if_splits)
qed simp

declare fgets_lines.simps [simp del]

text \<open>One line of the loop: \<open>line[strcspn(line, "\n")] = '\0'\<close>, then
  \<open>strtok(line, ",")\<close> (leading commas skipped, the identifier up to the next comma)
  and \<open>strtok(NULL, "")\<close> (the rest after that comma, \<open>NULL\<close> when empty); the name is
  \<open>strncpy\<close>'d into \<open>char name[50]\<close>.\<close>

definition parseCandidateLine :: "byte list \<Rightarrow> Candidate option" where
  "parseCandidateLine chunk =
     (let line = takeWhile (\<lambda>c. c \<noteq> newline) (c_str chunk);
          s = dropWhile (\<lambda>c. c = comma) line
      in if s = [] then None
         else
           let id = takeWhile (\<lambda>c. c \<noteq> comma) s;
               rest = drop (Suc (length id)) s
           in if rest = [] then None else Some \<lparr>cand_id = id, name = take 49 rest\<rparr>)"

text \<open>The loop over the chunks, with the \<open>break\<close> once \<open>MAX_CANDIDATES\<close> are read.\<close>

fun load_lines :: "byte list list \<Rightarrow> Candidate list \<Rightarrow> Candidate list" where
  "load_lines [] acc = acc"
| "load_lines (l # ls) acc =
     (case parseCandidateLine l of
        None \<Rightarrow> load_lines ls acc
      | Some c \<Rightarrow> if MAX_CANDIDATES \<le> length (acc @ [c]) then acc @ [c] else load_lines ls (acc @ [c]))"

text \<open>A missing file returns before \<open>*numCandidates = 0\<close>: the roster stays what it
  was (in \<open>main\<close>, an uninitialised array).\<close>

definition loadCandidatesFromFile :: "byte list option \<Rightarrow> Candidate list \<Rightarrow> Candidate list" where
  "loadCandidatesFromFile file old =
     (case file of None \<Rightarrow> old | Some f \<Rightarrow> load_lines (fgets_lines f) [])"

definition charset :: "byte list" where
  "charset = map word_of_nat ([65..<91] @ [48..<58])"

text \<open>\<open>generateUniqueID\<close>: \<open>XXXXX-XXXXX\<close> from ten \<open>rand() % 36\<close> draws.\<close>

definition generateUniqueID :: "nat list \<Rightarrow> byte list" where
  "generateUniqueID rs =
     map (\<lambda>r. charset ! (r mod 36)) (take 5 rs) @ [dash] @ map (\<lambda>r. charset ! (r mod 36)) (take 5 (drop 5 rs))"

text \<open>The name \<open>addCandidate\<close> reads: \<open>fgets(name, sizeof(name), stdin)\<close> (99 bytes
  at most) cut at its newline. At end of input \<open>fgets\<close> leaves \<open>name\<close>
  uninitialised; the model reads it as empty.\<close>

definition readName :: "byte list \<Rightarrow> byte list" where
  "readName input =
     takeWhile (\<lambda>c. c \<noteq> newline) (c_str (case fgets 100 input of None \<Rightarrow> [] | Some (l, _) \<Rightarrow> l))"

text \<open>\<open>addCandidate\<close>: \<open>fopen(CANDIDATES_FILE, "a")\<close> failing (\<open>ok = False\<close>)
  leaves the file; otherwise \<open>fprintf(file, "%s,%s\n", id, name)\<close> appends a line,
  creating the file if needed.\<close>

definition addCandidate :: "nat list \<Rightarrow> byte list \<Rightarrow> bool \<Rightarrow> byte list option \<Rightarrow> byte list option" where
  "addCandidate rs input ok file =
     (let nm = readName input; id = generateUniqueID rs
      in if \<not> ok then file
         else Some ((case file of None \<Rightarrow> [] | Some f \<Rightarrow> f) @ id @ [comma] @ nm @ [newline]))"

definition clearAllCandidates :: "bool \<Rightarrow> byte list option \<Rightarrow> byte list option" where
  "clearAllCandidates ok file = (if ok then Some [] else file)"

text \<open>The roster line \<open>addCandidate\<close> writes, and the candidate a loader should read
  back from it.\<close>

definition roster_line :: "nat list \<times> byte list \<Rightarrow> byte list" where
  "roster_line a = generateUniqueID (fst a) @ [comma] @ readName (snd a) @ [newline]"

definition added_candidate :: "nat list \<times> byte list \<Rightarrow> Candidate option" where
  "added_candidate a =
     (if readName (snd a) = [] then None
      else Some \<lparr>cand_id = generateUniqueID (fst a), name = take 49 (readName (snd a))\<rparr>)"


subsection \<open>Lemmas on the roster format\<close>

lemma length_generateUniqueID: "length rs \<ge> 10 \<Longrightarrow> length (generateUniqueID rs) = 11"
  by (simp add: generateUniqueID_def)

lemma length_charset: "length charset = 36"
  by (simp add: charset_def)

lemma charset_nth [simp]: "charset ! (r mod 36) \<in> set charset"
  by (simp add: length_charset)

lemma set_charset: "set charset \<subseteq> {c. c \<noteq> 0 \<and> c \<noteq> comma \<and> c \<noteq> newline}"
  by (auto simp: charset_def comma_def newline_def)

lemma generateUniqueID_chars:
  "c \<in> set (generateUniqueID rs) \<Longrightarrow> c \<noteq> 0 \<and> c \<noteq> comma \<and> c \<noteq> newline"
proof -
  assume "c \<in> set (generateUniqueID rs)"
  then have "c \<in> set charset \<or> c = dash"
    by (auto simp: generateUniqueID_def dest: in_set_takeD)
  then show ?thesis using set_charset by (auto simp: dash_def comma_def newline_def)
qed

lemma generateUniqueID_ne: "generateUniqueID rs \<noteq> []"
  by (simp add: generateUniqueID_def)

lemma readName_chars: "c \<in> set (readName input) \<Longrightarrow> c \<noteq> 0 \<and> c \<noteq> newline"
proof -
  assume c: "c \<in> set (readName input)"
  then have "c \<in> set (c_str (case fgets 100 input of None \<Rightarrow> [] | Some (l, _) \<Rightarrow> l))" "c \<noteq> newline"
    by (auto simp: readName_def dest: set_takeWhileD)
  then show ?thesis using c_str_is_cstring by (auto simp: cstring_iff)
qed

lemma length_readName: "length (readName input) \<le> 99"
proof -
  have "length (case fgets 100 input of None \<Rightarrow> [] | Some (l, _) \<Rightarrow> l) \<le> 99"
    by (auto simp: fgets_def Let_def split: option.split)
  moreover have "length (readName input) \<le> length (case fgets 100 input of None \<Rightarrow> [] | Some (l, _) \<Rightarrow> l)"
    unfolding readName_def using length_c_str length_takeWhile_le order_trans by blast
  ultimately show ?thesis by linarith
qed

lemma takeWhile_upto: "c \<notin> set l \<Longrightarrow> takeWhile (\<lambda>x. x \<noteq> c) (l @ c # r) = l"
  by (induction l) auto

lemma fgets_line:
  "newline \<notin> set l \<Longrightarrow> length l < 255 \<Longrightarrow> fgets 256 (l @ newline # rest) = Some (l @ [newline], rest)"
  by (cases "length l = 254") (simp_all add: fgets_def Let_def takeWhile_upto min_def)

lemma fgets_lines_concat:
  "\<forall>l \<in> set ls. newline \<notin> set l \<and> length l < 255 \<Longrightarrow>
   fgets_lines (concat (map (\<lambda>l. l @ [newline]) ls)) = map (\<lambda>l. l @ [newline]) ls"
proof (induction ls)
  case Nil
  then show ?case by (simp add: fgets_lines.simps fgets_def)
next
  case (Cons l ls)
  then show ?case by (subst fgets_lines.simps) (simp add: fgets_line)
qed

lemma roster_line_split: "roster_line a = (generateUniqueID (fst a) @ [comma] @ readName (snd a)) @ [newline]"
  by (simp add: roster_line_def)

lemma roster_line_chars:
  "newline \<notin> set (generateUniqueID (fst a) @ [comma] @ readName (snd a)) \<and>
   length (generateUniqueID (fst a) @ [comma] @ readName (snd a)) < 255"
proof -
  have "length (generateUniqueID (fst a)) \<le> 11" by (simp add: generateUniqueID_def)
  moreover have "length (readName (snd a)) \<le> 99" by (rule length_readName)
  ultimately show ?thesis
    using generateUniqueID_chars readName_chars by (auto simp: comma_def newline_def)
qed

lemma roster_line_tokens:
  "cstring (roster_line a) \<and>
   takeWhile (\<lambda>c. c \<noteq> newline) (roster_line a) = generateUniqueID (fst a) @ [comma] @ readName (snd a) \<and>
   dropWhile (\<lambda>c. c = comma) (generateUniqueID (fst a) @ [comma] @ readName (snd a)) =
     generateUniqueID (fst a) @ [comma] @ readName (snd a) \<and>
   takeWhile (\<lambda>c. c \<noteq> comma) (generateUniqueID (fst a) @ [comma] @ readName (snd a)) = generateUniqueID (fst a)"
proof -
  let ?id = "generateUniqueID (fst a)" and ?nm = "readName (snd a)"
  have cs: "cstring (roster_line a)"
    using generateUniqueID_chars readName_chars
    by (auto simp: roster_line_def cstring_iff comma_def newline_def)
  have tw: "takeWhile (\<lambda>c. c \<noteq> newline) (roster_line a) = ?id @ [comma] @ ?nm"
    using roster_line_chars [of a] takeWhile_upto [of newline "?id @ [comma] @ ?nm" "[]"]
    by (simp add: roster_line_def)
  obtain c cs' where idc: "?id = c # cs'" by (cases ?id) (simp_all add: generateUniqueID_ne)
  have "c \<noteq> comma" using generateUniqueID_chars [of c "fst a"] idc by simp
  then have dw: "dropWhile (\<lambda>c. c = comma) (?id @ [comma] @ ?nm) = ?id @ [comma] @ ?nm"
    using idc by simp
  have "comma \<notin> set ?id" using generateUniqueID_chars by blast
  then have tk: "takeWhile (\<lambda>c. c \<noteq> comma) (?id @ [comma] @ ?nm) = ?id"
    using takeWhile_upto [of comma ?id ?nm] by simp
  show ?thesis using cs tw dw tk by blast
qed

lemma parse_roster_line: "parseCandidateLine (roster_line a) = added_candidate a"
  using roster_line_tokens [of a]
  by (simp only: parseCandidateLine_def Let_def c_str_of_cstring) (simp add: added_candidate_def)

lemma load_lines_take:
  "length acc < MAX_CANDIDATES \<Longrightarrow>
   load_lines ls acc = take MAX_CANDIDATES (acc @ List.map_filter parseCandidateLine ls)"
proof (induction ls arbitrary: acc)
  case Nil
  then show ?case by simp
next
  case (Cons l ls)
  show ?case
  proof (cases "parseCandidateLine l")
    case None
    then show ?thesis using Cons by simp
  next
    case (Some c)
    show ?thesis
    proof (cases "MAX_CANDIDATES \<le> Suc (length acc)")
      case True
      then have "MAX_CANDIDATES - length acc = Suc 0" using Cons.prems by simp
      then show ?thesis using Some True by simp
    next
      case False
      then have "MAX_CANDIDATES - length acc = Suc (MAX_CANDIDATES - Suc (length acc))" by simp
      then show ?thesis using Some False Cons.IH [of "acc @ [c]"] by simp
    qed
  qed
qed

lemma add_candidates_file:
  "foldl (\<lambda>f a. addCandidate (fst a) (snd a) True f) (Some pre) adds =
   Some (pre @ concat (map roster_line adds))"
  by (induction adds arbitrary: pre) (simp_all add: addCandidate_def roster_line_def Let_def)

lemma map_filter_map: "List.map_filter f (map g xs) = List.map_filter (f \<circ> g) xs"
  by (induction xs) (simp_all add: map_filter_simps split: option.split)

lemma roster_file_lines:
  "fgets_lines (concat (map roster_line adds)) = map roster_line adds"
proof -
  have rl: "roster_line = (\<lambda>a. (generateUniqueID (fst a) @ [comma] @ readName (snd a)) @ [newline])"
    by (rule ext) (simp add: roster_line_def)
  have "concat (map roster_line adds) =
        concat (map (\<lambda>l. l @ [newline]) (map (\<lambda>a. generateUniqueID (fst a) @ [comma] @ readName (snd a)) adds))"
    by (simp add: rl comp_def)
  also have "fgets_lines \<dots> = map (\<lambda>l. l @ [newline]) (map (\<lambda>a. generateUniqueID (fst a) @ [comma] @ readName (snd a)) adds)"
    using roster_line_chars by (intro fgets_lines_concat) auto
  finally show ?thesis by (simp add: rl comp_def)
qed


subsection \<open>Properties of the roster\<close>

text \<open>C36. The roster file round trip: after \<open>clearAllCandidates\<close> and any sequence of
  \<open>addCandidate\<close> calls, \<open>loadCandidatesFromFile\<close> returns exactly the added
  candidates, in order, with their generated identifiers and names cut to 49 bytes,
  except that a candidate added with an empty name is dropped (its line \<open>ID,\<close> has no
  second \<open>strtok\<close> token), and only the first \<open>MAX_CANDIDATES\<close> are kept.\<close>

theorem roster_roundtrip:
  "loadCandidatesFromFile (foldl (\<lambda>f a. addCandidate (fst a) (snd a) True f) (clearAllCandidates True file) adds) old =
   take MAX_CANDIDATES (List.map_filter added_candidate adds)"
  using add_candidates_file [of "[]" adds] load_lines_take [of "[]" "map roster_line adds"]
  by (simp add: clearAllCandidates_def loadCandidatesFromFile_def roster_file_lines map_filter_map
      comp_def parse_roster_line MAX_CANDIDATES_def)

text \<open>C37. Whatever the roster file holds, \<open>loadCandidatesFromFile\<close> returns at most
  \<open>MAX_CANDIDATES\<close> candidates, so the counter array of \<open>countVotes\<close> is never
  overrun by a loaded roster.\<close>

theorem roster_bounded: "length (loadCandidatesFromFile (Some f) old) \<le> MAX_CANDIDATES"
  using load_lines_take [of "[]" "fgets_lines f"] by (simp add: loadCandidatesFromFile_def MAX_CANDIDATES_def)

end
