(* ===== verification/Voting_Window.thy ===== *)
theory Voting_Window
  imports Prelude
begin

text \<open>
  The voting window: at start-up \<open>main\<close> of \<open>src/gui2.c\<close> writes the expiration
  time, 30 seconds ahead, to \<open>voting_time.txt\<close> with \<open>fprintf(file, "%ld", t)\<close>, and
  every iteration of its loop asks \<open>hasTimePassed\<close> of \<open>src/blockchain.c\<close>, which
  reads it back with \<open>fscanf(file, "%ld", &file_time)\<close> and compares it with the clock.
  A C \<open>long\<close> (and \<open>time_t\<close>) is a 64-bit signed integer, modelled as an \<open>int\<close>
  in its range \<open>long_ok\<close>. \<open>fscanf\<close> skips white space, reads an optional sign and
  decimal digits; no digit leaves \<open>file_time\<close> uninitialised (the parameter \<open>junk\<close>),
  and a value out of the range of \<open>long\<close> is undefined behaviour (\<open>None\<close>).
\<close>

definition long_ok :: "int \<Rightarrow> bool" where
  "long_ok n \<longleftrightarrow> - (2 ^ 63) \<le> n \<and> n < 2 ^ 63"

text \<open>\<open>%ld\<close> output: the decimal digits, a minus sign before a negative number.\<close>

definition digit_byte :: "nat \<Rightarrow> byte" where
  "digit_byte k = word_of_nat (48 + k)"

fun digits_of :: "nat \<Rightarrow> byte list" where
  "digits_of n = (if n < 10 then [digit_byte n] else digits_of (n div 10) @ [digit_byte (n mod 10)])"

declare digits_of.simps [simp del]

definition print_long :: "int \<Rightarrow> byte list" where
  "print_long n = (if n < 0 then 45 # digits_of (nat (- n)) else digits_of (nat n))"

text \<open>\<open>%ld\<close> input.\<close>

definition is_space :: "byte \<Rightarrow> bool" where
  "is_space c \<longleftrightarrow> unat c = 32 \<or> (9 \<le> unat c \<and> unat c \<le> 13)"

definition is_digit :: "byte \<Rightarrow> bool" where
  "is_digit c \<longleftrightarrow> 48 \<le> unat c \<and> unat c \<le> 57"

definition digits_value :: "byte list \<Rightarrow> nat" where
  "digits_value ds = foldl (\<lambda>acc d. 10 * acc + (unat d - 48)) 0 ds"

datatype scan_result = Scanned int | NoMatch | OutOfRange

definition scan_long :: "byte list \<Rightarrow> scan_result" where
  "scan_long s =
     (let s1 = dropWhile is_space s;
          neg = (s1 \<noteq> [] \<and> hd s1 = 45);
          s2 = (if s1 \<noteq> [] \<and> (hd s1 = 45 \<or> hd s1 = 43) then tl s1 else s1);
          ds = takeWhile is_digit s2;
          v = (if neg then - int (digits_value ds) else int (digits_value ds))
      in if ds = [] then NoMatch else if long_ok v then Scanned v else OutOfRange)"

text \<open>\<open>hasTimePassed\<close>: no file is 0; otherwise 1 when the clock \<open>now\<close> has reached
  the time read.\<close>

definition hasTimePassed :: "byte list option \<Rightarrow> int \<Rightarrow> int \<Rightarrow> int option" where
  "hasTimePassed file now junk =
     (case file of
        None \<Rightarrow> Some 0
      | Some f \<Rightarrow>
          (case scan_long f of
             Scanned t \<Rightarrow> Some (if t \<le> now then 1 else 0)
           | NoMatch \<Rightarrow> Some (if junk \<le> now then 1 else 0)
           | OutOfRange \<Rightarrow> None))"

text \<open>The start of \<open>main\<close>: \<open>expiration_time = current_time + 30\<close> written with
  \<open>"%ld"\<close>; a failed \<open>fopen\<close> leaves the old file.\<close>

definition setVotingTime :: "bool \<Rightarrow> int \<Rightarrow> byte list option \<Rightarrow> byte list option" where
  "setVotingTime ok now old = (if ok then Some (print_long (now + 30)) else old)"

subsection \<open>Printing and scanning a \<open>long\<close>\<close>

lemma unat_digit: "k < 10 \<Longrightarrow> unat (digit_byte k) = 48 + k"
  by (simp only: digit_byte_def unat_of_nat) simp

lemma digit_is_digit: "k < 10 \<Longrightarrow> is_digit (digit_byte k) \<and> \<not> is_space (digit_byte k)"
  by (simp add: is_digit_def is_space_def unat_digit)

lemma digits_of_ne: "digits_of n \<noteq> []"
  by (subst digits_of.simps) simp

lemma digits_of_digits: "\<forall>c \<in> set (digits_of n). is_digit c \<and> \<not> is_space c"
proof (induction n rule: digits_of.induct)
  case (1 n)
  then show ?case by (subst digits_of.simps) (auto simp: digit_is_digit)
qed

lemma digits_value_snoc: "digits_value (xs @ [d]) = 10 * digits_value xs + (unat d - 48)"
  by (simp add: digits_value_def)

lemma digits_value_of: "digits_value (digits_of n) = n"
proof (induction n rule: digits_of.induct)
  case (1 n)
  show ?case
  proof (cases "n < 10")
    case True
    then show ?thesis by (subst digits_of.simps) (simp add: digits_value_def unat_digit)
  next
    case False
    then show ?thesis using 1 by (subst digits_of.simps) (simp add: digits_value_snoc unat_digit)
  qed
qed

lemma takeWhile_digits: "takeWhile is_digit (digits_of n) = digits_of n"
  using digits_of_digits [of n] by (simp add: takeWhile_eq_all_conv)

lemma hd_digits_of: "is_digit (hd (digits_of n)) \<and> \<not> is_space (hd (digits_of n))"
  using digits_of_digits [of n] digits_of_ne [of n] by simp

lemma hd_digits_not_sign: "hd (digits_of n) \<noteq> 45 \<and> hd (digits_of n) \<noteq> 43"
  using hd_digits_of [of n] by (auto simp: is_digit_def)

lemma scan_print_long: "long_ok n \<Longrightarrow> scan_long (print_long n) = Scanned n"
proof (cases "n < 0")
  case True
  assume ok: "long_ok n"
  have sp: "\<not> is_space 45" by (simp add: is_space_def)
  show ?thesis using True ok sp digits_of_ne [of "nat (- n)"]
    by (simp add: scan_long_def print_long_def takeWhile_digits digits_value_of)
next
  case False
  assume ok: "long_ok n"
  have "dropWhile is_space (digits_of (nat n)) = digits_of (nat n)"
    using hd_digits_of [of "nat n"] digits_of_ne [of "nat n"]
    by (cases "digits_of (nat n)") simp_all
  then show ?thesis using False ok digits_of_ne [of "nat n"] hd_digits_not_sign [of "nat n"]
    by (simp add: scan_long_def print_long_def takeWhile_digits digits_value_of)
qed

subsection \<open>Properties of the voting window\<close>



text \<open>Once \<open>hasTimePassed\<close> has answered 1 for a file, it answers 1 at every
  later time: the voting window never reopens.\<close>

theorem window_stays_closed:
  "hasTimePassed f now junk = Some 1 \<Longrightarrow> now \<le> now' \<Longrightarrow> hasTimePassed f now' junk = Some 1"
  by (auto simp: hasTimePassed_def split: option.splits scan_result.splits if_splits)

theorem window_stays_closed_witness:
  "hasTimePassed (Some (print_long 5)) 5 0 = Some 1 \<and> (5::int) \<le> 7 \<and> hasTimePassed (Some (print_long 5)) 7 0 = Some 1"
  using window_stays_closed [where f = "Some (print_long 5)" and now = 5 and now' = 7 and junk = 0]
    scan_print_long [of 5]
  by (simp add: hasTimePassed_def long_ok_def)

end
