(* ===== verification/Gui.thy ===== *)
theory Gui
  imports Registry_Snapshot Roster Voting_Window
begin

text \<open>
  The program \<open>src/gui2.c\<close> as a state machine. \<open>main\<close> writes the voting time,
  loads the registry, the ledger and the roster from their files, and runs a loop that
  first asks \<open>hasTimePassed\<close> (ending the vote with \<open>countVotes\<close>) and then hands every
  SDL event to the handler of the current screen: \<open>handleMainMenuEvents\<close>,
  \<open>handleRegisterVoterEvents\<close>, \<open>handleCastVoteEvents\<close> or
  \<open>handleCandidateManagementEvents\<close>. The state is the record \<open>session\<close>: the data
  \<open>main\<close> owns (tree, ledger, roster), the four files, the fields of \<open>GUIState\<close>
  the handlers use, the global \<open>candidateID\<close> buffer the register screen writes
  (\<open>regCandidateID\<close>), the static \<open>candidateID\<close> and \<open>inputFocus\<close> of
  \<open>handleCastVoteEvents\<close>, the loop's \<open>quit\<close> flag and the tally \<open>countVotes\<close>
  printed when the vote ended. Events are SDL events (a click at a point, a text
  input, a key), one iteration of the loop at a clock time (\<open>Frame\<close>), and a restart
  of the program. Buffers hold the C string they contain; a \<open>strcat\<close> past the end
  of a buffer is an error value. Rendering is not modelled. \<open>malloc\<close> of a block is
  taken to succeed here (\<open>castVote\<close>'s failure path is in \<open>Ledger\<close>).
\<close>

datatype message = NoMessage | EnterVoterID | VoterRegistered | VoterNotRegistered
  | AlreadyVoted | EnterCandidateID | VoteCast | UpdateError | InvalidChoice

record session =
  voterTree :: vtree
  bc :: blockchain
  roster :: "Candidate list"
  voter_file :: "snapshot option"
  ledger_file :: "byte list option"
  cand_file :: "byte list option"
  time_file :: "byte list option"
  inputBuffer :: "byte list"
  errorMessage :: message
  currentScreen :: nat
  regCandidateID :: "byte list"
  candidateID :: "byte list"
  inputFocus :: nat
  quit :: bool
  tally :: "(tally_error + nat list) option"

datatype key = KBackspace | K0 | K1 | KOther

datatype event = Click int int | TextInput "byte list" | KeyDown key | Frame int int
  | Restart digest int "Candidate list"

datatype session_error = LedgerFailure merkle_error | BufferOverflow | TimeOutOfRange

text \<open>Start-up in \<open>main\<close>: the voting time is written, \<open>initializeTree\<close> and
  \<open>initializeBlockchain\<close> load the data files, \<open>GUIState\<close> starts on the main menu
  and \<open>loadCandidatesFromFile\<close> fills the roster. \<open>junk\<close> is the indeterminate
  \<open>merkle_root\<close> of the stack variable \<open>bc\<close>, \<open>jr\<close> the uninitialised roster
  array a missing \<open>candidates.txt\<close> leaves.\<close>

definition startSession :: "snapshot option \<Rightarrow> byte list option \<Rightarrow> byte list option \<Rightarrow> byte list option \<Rightarrow>
    int \<Rightarrow> digest \<Rightarrow> Candidate list \<Rightarrow> session" where
  "startSession vf lf cf tf now junk jr =
     \<lparr>voterTree = initializeTree vf, bc = initializeBlockchain lf junk,
      roster = loadCandidatesFromFile cf jr, voter_file = vf, ledger_file = lf, cand_file = cf,
      time_file = setVotingTime True now tf, inputBuffer = [], errorMessage = NoMessage,
      currentScreen = 0, regCandidateID = [], candidateID = [], inputFocus = 0, quit = False,
      tally = None\<rparr>"

definition inRect :: "int \<Rightarrow> int \<Rightarrow> int \<Rightarrow> int \<Rightarrow> int \<Rightarrow> int \<Rightarrow> bool" where
  "inRect x y x1 x2 y1 y2 \<longleftrightarrow> x1 \<le> x \<and> x \<le> x2 \<and> y1 \<le> y \<and> y \<le> y2"

text \<open>\<open>strcat(dst, src)\<close> into a buffer of \<open>n\<close> bytes: \<open>None\<close> when it writes past
  the end.\<close>

definition strcat_buf :: "nat \<Rightarrow> byte list \<Rightarrow> byte list \<Rightarrow> byte list option" where
  "strcat_buf n dst src = (if length dst + length (c_str src) < n then Some (dst @ c_str src) else None)"

text \<open>\<open>strncat(dst, src, n - strlen(dst) - 1)\<close>: bounded by the room left.\<close>

definition strncat_buf :: "nat \<Rightarrow> byte list \<Rightarrow> byte list \<Rightarrow> byte list" where
  "strncat_buf n dst src = dst @ take (n - length dst - 1) (c_str src)"

text \<open>\<open>s[strlen(s) - 1] = '\0'\<close>.\<close>

definition backspace :: "byte list \<Rightarrow> byte list" where
  "backspace s = butlast s"


subsection \<open>The main menu\<close>

definition handleMainMenuEvents :: "event \<Rightarrow> session \<Rightarrow> session" where
  "handleMainMenuEvents e s =
     (case e of
        Click x y \<Rightarrow>
          if inRect x y 350 650 200 250 then s\<lparr>currentScreen := 1, errorMessage := NoMessage\<rparr>
          else if inRect x y 350 650 270 320 then s\<lparr>currentScreen := 2, errorMessage := NoMessage\<rparr>
          else if inRect x y 350 650 340 390 then s\<lparr>currentScreen := 3, errorMessage := NoMessage\<rparr>
          else if inRect x y 350 650 550 600 then s\<lparr>quit := True\<rparr>
          else s
      | _ \<Rightarrow> s)"


subsection \<open>The register-voter screen\<close>

text \<open>The register button: \<open>strncpy\<close> into \<open>char voterID[8]\<close> keeps at most 7
  characters; the duplicate check is commented out in the source.\<close>

definition registerVoter :: "session \<Rightarrow> session" where
  "registerVoter s =
     (let voterID = c_str (take 7 (inputBuffer s))
      in if voterID = [] then s\<lparr>errorMessage := EnterVoterID\<rparr>
         else
           let t = insertVoter (voterTree s) voterID
           in s\<lparr>voterTree := t, errorMessage := VoterRegistered,
                voter_file := saveTreeToBinaryFile True t (voter_file s), inputBuffer := []\<rparr>)"

definition handleRegisterVoterEvents :: "event \<Rightarrow> session \<Rightarrow> session option" where
  "handleRegisterVoterEvents e s =
     (case e of
        Click x y \<Rightarrow>
          if inRect x y 350 650 420 470 then Some (s\<lparr>currentScreen := 0, errorMessage := NoMessage, inputBuffer := []\<rparr>)
          else if inRect x y 350 650 350 400 then Some (registerVoter s)
          else Some s
      | TextInput text \<Rightarrow>
          if length (inputBuffer s) < 49 then
            map_option (\<lambda>b. s\<lparr>inputBuffer := b\<rparr>) (strcat_buf 50 (inputBuffer s) text)
          else if length (regCandidateID s) < 31 then
            map_option (\<lambda>b. s\<lparr>regCandidateID := b\<rparr>) (strcat_buf 32 (regCandidateID s) text)
          else Some s
      | KeyDown KBackspace \<Rightarrow>
          if regCandidateID s \<noteq> [] then Some (s\<lparr>regCandidateID := backspace (regCandidateID s)\<rparr>)
          else if inputBuffer s \<noteq> [] then Some (s\<lparr>inputBuffer := backspace (inputBuffer s)\<rparr>)
          else Some s
      | _ \<Rightarrow> Some s)"


subsection \<open>The cast-vote screen\<close>

text \<open>The submit button of the cast-vote screen: \<open>strncpy\<close> into
  \<open>char voterID[16]\<close> keeps at most 15 characters, then the guards in the order of
  the source, \<open>castVote\<close> (whose result the handler does not check) and
  \<open>updateVotingStatus\<close>; \<open>alloc\<close> is the success of \<open>castVote\<close>'s \<open>malloc\<close>.
  The pointer checks before it never fail: \<open>main\<close> passes its own variables.\<close>

definition submitVote :: "hashfn \<Rightarrow> bool \<Rightarrow> session \<Rightarrow> merkle_error + session" where
  "submitVote H alloc s =
     (let voterID = c_str (take 15 (inputBuffer s))
      in if voterID = [] then Inr (s\<lparr>errorMessage := EnterVoterID\<rparr>)
         else case findVoter (voterTree s) voterID of
           None \<Rightarrow> Inr (s\<lparr>errorMessage := VoterNotRegistered\<rparr>)
         | Some voter \<Rightarrow>
             if voted voter \<noteq> 0 then Inr (s\<lparr>errorMessage := AlreadyVoted\<rparr>)
             else if c_str (candidateID s) = [] then Inr (s\<lparr>errorMessage := EnterCandidateID\<rparr>)
             else case castVote H alloc True voterID (candidateID s) (bc s, ledger_file s) of
               Inl e \<Rightarrow> Inl e
             | Inr (bc', lf') \<Rightarrow>
                 (case updateVotingStatus (voterTree s) voterID of
                    (updateStatus, t') \<Rightarrow>
                      if updateStatus = 0 then
                        Inr (s\<lparr>bc := bc', ledger_file := lf', voterTree := t',
                               voter_file := saveTreeToBinaryFile True t' (voter_file s),
                               errorMessage := VoteCast, inputBuffer := [], candidateID := []\<rparr>)
                      else Inr (s\<lparr>bc := bc', ledger_file := lf', voterTree := t',
                                   errorMessage := UpdateError\<rparr>)))"

definition handleCastVoteEvents :: "hashfn \<Rightarrow> event \<Rightarrow> session \<Rightarrow> merkle_error + session" where
  "handleCastVoteEvents H e s =
     (case e of
        Click x y \<Rightarrow>
          let s1 = (if inRect x y 350 650 200 250 then s\<lparr>inputFocus := 0\<rparr> else s);
              s2 = (if inRect x y 350 650 300 350 then s1\<lparr>inputFocus := 1\<rparr> else s1)
          in if inRect x y 350 495 400 450 then
               Inr (s2\<lparr>currentScreen := 0, errorMessage := NoMessage, inputBuffer := [], candidateID := []\<rparr>)
             else if inRect x y 505 650 400 450 then submitVote H True s2
             else Inr s2
      | TextInput text \<Rightarrow>
          if inputFocus s = 0 \<and> length (inputBuffer s) < 49 then
            Inr (s\<lparr>inputBuffer := strncat_buf 50 (inputBuffer s) text\<rparr>)
          else if inputFocus s = 1 \<and> length (candidateID s) < 31 then
            Inr (s\<lparr>candidateID := strncat_buf 32 (candidateID s) text\<rparr>)
          else Inr s
      | KeyDown KBackspace \<Rightarrow>
          if inputFocus s = 0 \<and> inputBuffer s \<noteq> [] then Inr (s\<lparr>inputBuffer := backspace (inputBuffer s)\<rparr>)
          else if inputFocus s = 1 \<and> candidateID s \<noteq> [] then Inr (s\<lparr>candidateID := backspace (candidateID s)\<rparr>)
          else Inr s
      | _ \<Rightarrow> Inr s)"


subsection \<open>The candidate-management screen\<close>

text \<open>Key 1 runs \<open>displayCandidates\<close>, which only prints.\<close>

definition handleCandidateManagementEvents :: "event \<Rightarrow> session \<Rightarrow> session" where
  "handleCandidateManagementEvents e s =
     (case e of
        KeyDown K1 \<Rightarrow> s
      | KeyDown K0 \<Rightarrow> s\<lparr>currentScreen := 0\<rparr>
      | KeyDown _ \<Rightarrow> s\<lparr>errorMessage := InvalidChoice\<rparr>
      | _ \<Rightarrow> s)"


subsection \<open>The main loop\<close>

text \<open>A restart: the memory is lost and \<open>main\<close> starts again from the files.\<close>

definition restart :: "digest \<Rightarrow> int \<Rightarrow> Candidate list \<Rightarrow> session \<Rightarrow> session" where
  "restart junk now jr s =
     startSession (voter_file s) (ledger_file s) (cand_file s) (time_file s) now junk jr"

text \<open>The dispatch of the loop of \<open>main\<close> on \<open>currentScreen\<close>, and the check of the
  voting time at the head of each iteration (\<open>Frame now junk\<close>, \<open>junk\<close> the
  uninitialised \<open>file_time\<close> of \<open>hasTimePassed\<close>). After \<open>quit\<close> the program
  has ended and no event changes the state.\<close>

definition dispatch :: "hashfn \<Rightarrow> event \<Rightarrow> session \<Rightarrow> session_error + session" where
  "dispatch H e s =
     (if currentScreen s = 0 then Inr (handleMainMenuEvents e s)
      else if currentScreen s = 1 then
        (case handleRegisterVoterEvents e s of None \<Rightarrow> Inl BufferOverflow | Some s' \<Rightarrow> Inr s')
      else if currentScreen s = 2 then
        (case handleCastVoteEvents H e s of Inl err \<Rightarrow> Inl (LedgerFailure err) | Inr s' \<Rightarrow> Inr s')
      else if currentScreen s = 3 then Inr (handleCandidateManagementEvents e s)
      else Inr s)"

fun step :: "hashfn \<Rightarrow> session \<Rightarrow> event \<Rightarrow> session_error + session" where
  "step H s (Restart junk now jr) = Inr (restart junk now jr s)"
| "step H s (Frame now junk) =
     (if quit s then Inr s
      else case hasTimePassed (time_file s) now junk of
        None \<Rightarrow> Inl TimeOutOfRange
      | Some r \<Rightarrow>
          if r \<noteq> 0 then Inr (s\<lparr>tally := Some (countVotes H (bc s) (roster s)), quit := True\<rparr>)
          else Inr s)"
| "step H s (Click x y) = (if quit s then Inr s else dispatch H (Click x y) s)"
| "step H s (TextInput text) = (if quit s then Inr s else dispatch H (TextInput text) s)"
| "step H s (KeyDown k) = (if quit s then Inr s else dispatch H (KeyDown k) s)"

fun run :: "hashfn \<Rightarrow> session \<Rightarrow> event list \<Rightarrow> session_error + session" where
  "run H s [] = Inr s"
| "run H s (ev # evs) = (case step H s ev of Inl e \<Rightarrow> Inl e | Inr s' \<Rightarrow> run H s' evs)"

text \<open>\<open>destroyAndExit\<close> (called nowhere in the program): truncates the ledger file,
  then the voter file, returning early when an \<open>fopen\<close> fails.\<close>

definition destroyAndExit :: "bool \<Rightarrow> bool \<Rightarrow> session \<Rightarrow> session" where
  "destroyAndExit ok1 ok2 s =
     (if \<not> ok1 then s
      else if \<not> ok2 then s\<lparr>ledger_file := Some []\<rparr>
      else s\<lparr>ledger_file := Some [], voter_file := Some []\<rparr>)"

end
