(* ===== verification/Session.thy ===== *)
theory Session
  imports Gui
begin

text \<open>
  Runs of the program of \<open>Gui\<close>. \<open>reach\<close> is the set of sessions reachable from a
  fresh installation (no voter or ledger file; any roster and time file) by events
  that are not a restart; \<open>session_inv\<close> is what holds of all of them: the registry is
  a valid AVL registry, every ledger block is the well-formed vote of a distinct voter
  the registry marks as voted, the ledger is linked and its stored root is its Merkle
  root, the ledger file holds the ledger, and the input buffers stay within their C
  arrays and are empty on the main menu. The properties of a session follow from it:
  no double vote, a verified ledger, the tally printed at the end of the vote, the
  bounds of the buffers, the refusal of identifiers longer than 7 characters, and that
  a registered voter can always vote. The session witnesses run the program on
  concrete event sequences (\<open>demo_events\<close>) with a 32-byte toy digest \<open>toyH\<close>.
  Restarts are the subject of \<open>Restart\<close>.
\<close>

inductive reach :: "hashfn \<Rightarrow> session \<Rightarrow> bool" for H where
  start: "reach H (startSession None None cf tf now junk jr)"
| step: "reach H s \<Longrightarrow> step H s ev = Inr s' \<Longrightarrow> \<not> (\<exists>junk now jr. ev = Restart junk now jr) \<Longrightarrow> reach H s'"

inductive_cases reach_stepE: "reach H s'"

text \<open>The data part of the invariant.\<close>

definition session_inv :: "hashfn \<Rightarrow> session \<Rightarrow> bool" where
  "session_inv H s \<longleftrightarrow>
     registry_inv (voterTree s) \<and> (\<forall>k \<in> dom (regmap (voterTree s)). length k \<le> 7) \<and>
     distinct (map bvoterID (blocks (bc s))) \<and>
     list_all (\<lambda>b. block_ok b \<and> length (bvoterID b) \<le> 15 \<and> length (candID b) \<le> 31 \<and>
       regmap (voterTree s) (bvoterID b) = Some 1) (blocks (bc s)) \<and>
     chain_ok H (blocks (bc s)) \<and>
     (blocks (bc s) \<noteq> [] \<longrightarrow> root_ok H (bc s) \<and> ledger_file s = Some (saveBlocks (blocks (bc s)))) \<and>
     (blocks (bc s) = [] \<longrightarrow> ledger_file s = None) \<and>
     cstring (inputBuffer s) \<and> cstring (candidateID s) \<and> length (candidateID s) \<le> 31"

text \<open>The interface part: the buffers stay inside their arrays, and the main menu and
  the candidate screen are entered with empty vote inputs.\<close>

definition ui_inv :: "session \<Rightarrow> bool" where
  "ui_inv s \<longleftrightarrow>
     length (inputBuffer s) \<le> 49 \<and> cstring (regCandidateID s) \<and> length (regCandidateID s) \<le> 31 \<and>
     currentScreen s \<le> 3 \<and>
     (currentScreen s \<noteq> 2 \<longrightarrow> candidateID s = []) \<and>
     (currentScreen s = 0 \<or> currentScreen s = 3 \<longrightarrow> inputBuffer s = [])"


text \<open>Points inside the buttons and boxes of the screens, and the event sequences a
  user produces to register and to vote.\<close>

abbreviation menuRegister :: event where "menuRegister \<equiv> Click 400 220"
abbreviation menuVote :: event where "menuVote \<equiv> Click 400 290"
abbreviation registerButton :: event where "registerButton \<equiv> Click 400 370"
abbreviation registerBackButton :: event where "registerBackButton \<equiv> Click 400 440"
abbreviation voterBox :: event where "voterBox \<equiv> Click 400 220"
abbreviation candidateBox :: event where "candidateBox \<equiv> Click 400 320"
abbreviation submitButton :: event where "submitButton \<equiv> Click 550 420"
abbreviation voteBackButton :: event where "voteBackButton \<equiv> Click 400 420"

abbreviation register_events :: "byte list \<Rightarrow> event list" where
  "register_events v \<equiv> [menuRegister, TextInput v, registerButton, registerBackButton]"

abbreviation vote_events :: "byte list \<Rightarrow> byte list \<Rightarrow> event list" where
  "vote_events v c \<equiv> [menuVote, voterBox, TextInput v, candidateBox, TextInput c, submitButton]"

abbreviation toyH :: hashfn where
  "toyH \<equiv> \<lambda>x. take 32 (x @ replicate 32 0)"

abbreviation demo_roster :: "Candidate list" where
  "demo_roster \<equiv> [\<lparr>cand_id = [67], name = [65]\<rparr>, \<lparr>cand_id = [68], name = [66]\<rparr>]"

abbreviation demo_start :: session where
  "demo_start \<equiv> startSession None None None None 0 [] demo_roster"

abbreviation demo_events :: "event list" where
  "demo_events \<equiv> register_events [65] @ register_events [66] @ vote_events [65] [67] @ vote_events [66] [68]"

abbreviation long_id :: "byte list" where
  "long_id \<equiv> [65, 66, 67, 68, 69, 70, 71, 72]"

abbreviation long_events :: "event list" where
  "long_events \<equiv> register_events long_id @ [menuVote, voterBox, TextInput long_id]"


subsection \<open>The handlers keep the invariant\<close>

lemma c_str_append_cstring [simp]: "cstring s \<Longrightarrow> cstring (s @ c_str t)"
  by simp

lemma cstring_butlast [simp]: "cstring s \<Longrightarrow> cstring (butlast s)"
  by (simp add: cstring_iff) (meson in_set_butlastD)

lemma session_inv_start: "session_inv H (startSession None None cf tf now junk jr) \<and> ui_inv (startSession None None cf tf now junk jr)"
  by (simp add: session_inv_def ui_inv_def startSession_def initializeTree_def loadTreeFromBinaryFile_def
      initializeBlockchain_def loadBlockchainFromFile_def registry_inv_def chain_ok_def regmap_def)

lemma session_inv_ui:
  "session_inv H s \<Longrightarrow> cstring ib \<Longrightarrow> cstring cid \<Longrightarrow> length cid \<le> 31 \<Longrightarrow>
   session_inv H (s\<lparr>inputBuffer := ib, candidateID := cid, errorMessage := m, currentScreen := sc,
                    regCandidateID := rc, inputFocus := fc, quit := q, tally := ty\<rparr>)"
  by (simp add: session_inv_def)

lemma session_inv_same:
  "session_inv H s \<Longrightarrow> session_inv H (s\<lparr>errorMessage := m\<rparr>) \<and> session_inv H (s\<lparr>currentScreen := sc\<rparr>) \<and>
   session_inv H (s\<lparr>regCandidateID := rc\<rparr>) \<and> session_inv H (s\<lparr>inputFocus := fc\<rparr>) \<and>
   session_inv H (s\<lparr>quit := q\<rparr>) \<and> session_inv H (s\<lparr>tally := ty\<rparr>)"
  by (simp add: session_inv_def)

lemma session_inv_message: "session_inv H s \<Longrightarrow> session_inv H (s\<lparr>errorMessage := m\<rparr>)"
  by (simp add: session_inv_def)

lemma regmap_insert_keeps:
  "registry_inv t \<Longrightarrow> cstring x \<Longrightarrow> regmap t y = Some 1 \<Longrightarrow> regmap (insertVoterNode t x) y = Some 1"
  by (auto simp: insert_regmap reg_insert_spec_def)

lemma regmap_insert_dom:
  "registry_inv t \<Longrightarrow> cstring x \<Longrightarrow> dom (regmap (insertVoterNode t x)) = insert x (dom (regmap t))"
  by (auto simp: insert_regmap reg_insert_spec_def)

lemma session_inv_registerVoter:
  "session_inv H s \<Longrightarrow> session_inv H (registerVoter s)"
  by (auto simp: registerVoter_def session_inv_def Let_def insertVoter_def insert_inv
      regmap_insert_keeps regmap_insert_dom list_all_iff length_c_str [THEN order_trans])

lemma ui_inv_registerVoter:
  "ui_inv s \<Longrightarrow> currentScreen s = 1 \<Longrightarrow> ui_inv (registerVoter s)"
  by (simp add: registerVoter_def ui_inv_def Let_def)

lemma length_strcat_buf: "strcat_buf n dst src = Some r \<Longrightarrow> length r < n \<and> (cstring dst \<longrightarrow> cstring r)"
  by (auto simp: strcat_buf_def split: if_splits)

lemma length_strncat_buf:
  "length dst < n \<Longrightarrow> length (strncat_buf n dst src) \<le> n - 1 \<and> (cstring dst \<longrightarrow> cstring (strncat_buf n dst src))"
  by (auto simp: strncat_buf_def)

lemma session_inv_frame:
  assumes "session_inv H s" "voterTree s' = voterTree s" "bc s' = bc s" "ledger_file s' = ledger_file s"
    "cstring (inputBuffer s')" "cstring (candidateID s')" "length (candidateID s') \<le> 31"
  shows "session_inv H s'"
  using assms unfolding session_inv_def by simp

lemma mainMenu_fields:
  "voterTree (handleMainMenuEvents e s) = voterTree s \<and> bc (handleMainMenuEvents e s) = bc s \<and>
   ledger_file (handleMainMenuEvents e s) = ledger_file s \<and> inputBuffer (handleMainMenuEvents e s) = inputBuffer s \<and>
   candidateID (handleMainMenuEvents e s) = candidateID s \<and> regCandidateID (handleMainMenuEvents e s) = regCandidateID s \<and>
   currentScreen (handleMainMenuEvents e s) \<in> {currentScreen s, 1, 2, 3}"
  by (simp add: handleMainMenuEvents_def split: event.split)

lemma inv_mainMenu:
  "session_inv H s \<Longrightarrow> ui_inv s \<Longrightarrow> currentScreen s = 0 \<Longrightarrow>
   session_inv H (handleMainMenuEvents e s) \<and> ui_inv (handleMainMenuEvents e s)"
  using mainMenu_fields [of e s] session_inv_frame [of H s "handleMainMenuEvents e s"]
  by (auto simp: session_inv_def ui_inv_def)

lemma registerScreen_cases:
  assumes h: "handleRegisterVoterEvents e s = Some s'" and "cstring (inputBuffer s)" "cstring (regCandidateID s)"
    "length (inputBuffer s) \<le> 49" "length (regCandidateID s) \<le> 31"
  shows "s' = registerVoter s \<or>
    (voterTree s' = voterTree s \<and> bc s' = bc s \<and> ledger_file s' = ledger_file s \<and> candidateID s' = candidateID s \<and>
     cstring (inputBuffer s') \<and> cstring (regCandidateID s') \<and> length (inputBuffer s') \<le> 49 \<and>
     length (regCandidateID s') \<le> 31 \<and> (currentScreen s' = currentScreen s \<or> (currentScreen s' = 0 \<and> inputBuffer s' = [])))"
proof (cases e)
  case (Click x y)
  then show ?thesis using assms by (auto simp: handleRegisterVoterEvents_def split: if_splits)
next
  case (TextInput str)
  then show ?thesis using assms
    by (auto simp: handleRegisterVoterEvents_def strcat_buf_def split: if_splits)
next
  case (KeyDown k)
  then show ?thesis using assms
    by (cases k) (auto simp: handleRegisterVoterEvents_def backspace_def split: if_splits)
qed (insert assms, auto simp: handleRegisterVoterEvents_def)

lemma inv_registerScreen:
  assumes inv: "session_inv H s" "ui_inv s" and sc: "currentScreen s = 1" and h: "handleRegisterVoterEvents e s = Some s'"
  shows "session_inv H s' \<and> ui_inv s'"
proof -
  have u: "cstring (inputBuffer s)" "cstring (regCandidateID s)" "length (inputBuffer s) \<le> 49"
    "length (regCandidateID s) \<le> 31" "candidateID s = []"
    using inv sc by (simp_all add: session_inv_def ui_inv_def)
  show ?thesis
  proof (cases "s' = registerVoter s")
    case True
    then show ?thesis using session_inv_registerVoter [OF inv(1)] ui_inv_registerVoter [OF inv(2) sc] by simp
  next
    case False
    then have f: "voterTree s' = voterTree s" "bc s' = bc s" "ledger_file s' = ledger_file s"
      "candidateID s' = candidateID s" "cstring (inputBuffer s')" "cstring (regCandidateID s')"
      "length (inputBuffer s') \<le> 49" "length (regCandidateID s') \<le> 31"
      "currentScreen s' = 1 \<or> (currentScreen s' = 0 \<and> inputBuffer s' = [])"
      using registerScreen_cases [OF h u(1-4)] sc by auto
    have "session_inv H s'" using session_inv_frame [OF inv(1) f(1-3,5)] f(4) u(5) by simp
    moreover have "ui_inv s'" using f(4,6-9) u(5) by (auto simp: ui_inv_def)
    ultimately show ?thesis ..
  qed
qed

lemma inv_candidateScreen:
  "session_inv H s \<Longrightarrow> ui_inv s \<Longrightarrow> currentScreen s = 3 \<Longrightarrow>
   session_inv H (handleCandidateManagementEvents e s) \<and> ui_inv (handleCandidateManagementEvents e s)"
  by (auto simp: handleCandidateManagementEvents_def session_inv_def ui_inv_def split: event.splits key.splits)

lemma submitVote_message:
  assumes "submitVote H alloc s = Inr s'"
    and "c_str (take 15 (inputBuffer s)) = [] \<or> findVoter (voterTree s) (c_str (take 15 (inputBuffer s))) = None \<or>
         (\<exists>v. findVoter (voterTree s) (c_str (take 15 (inputBuffer s))) = Some v \<and> voted v \<noteq> 0) \<or>
         c_str (candidateID s) = []"
  shows "\<exists>m. m \<noteq> VoteCast \<and> s' = s\<lparr>errorMessage := m\<rparr>"
  using assms by (auto simp: submitVote_def Let_def split: option.splits if_splits)

lemma submitVote_marks:
  assumes inv: "session_inv H s" and r: "submitVote H alloc s = Inr s'"
    and vid: "vid = c_str (take 15 (inputBuffer s))" and ne: "vid \<noteq> []"
    and fv: "findVoter (voterTree s) vid = Some voter" and v0: "voted voter = 0"
    and cne: "c_str (candidateID s) \<noteq> []"
  obtains bc' lf' t' where
    "castVote H alloc True vid (candidateID s) (bc s, ledger_file s) = Inr (bc', lf')"
    "regmap (voterTree s) vid = Some 0" "registry_inv t'" "regmap t' = (regmap (voterTree s))(vid \<mapsto> 1)"
    "s' = s\<lparr>bc := bc', ledger_file := lf', voterTree := t',
            voter_file := saveTreeToBinaryFile True t' (voter_file s),
            errorMessage := VoteCast, inputBuffer := [], candidateID := []\<rparr>"
proof -
  have ri: "registry_inv (voterTree s)" using inv by (simp add: session_inv_def)
  have cs: "cstring vid" using vid by simp
  have reg: "regmap (voterTree s) vid = Some 0"
    using findVoter_regmap [OF ri cs] fv v0 by simp
  obtain res t' where u: "updateVotingStatus (voterTree s) vid = (res, t')" by fastforce
  have "(res, regmap t') = reg_mark_spec (regmap (voterTree s)) vid"
    using update_regmap [OF ri cs] u by simp
  then have res: "res = 0" and rt: "regmap t' = (regmap (voterTree s))(vid \<mapsto> 1)"
    using reg by (simp_all add: reg_mark_spec_def)
  have it: "registry_inv t'" using update_inv [OF ri, of vid] u by simp
  obtain bc' lf' where cv: "castVote H alloc True vid (candidateID s) (bc s, ledger_file s) = Inr (bc', lf')"
    using r fv v0 ne cne vid by (cases "castVote H alloc True vid (candidateID s) (bc s, ledger_file s)")
      (auto simp: submitVote_def Let_def)
  have "s' = s\<lparr>bc := bc', ledger_file := lf', voterTree := t',
            voter_file := saveTreeToBinaryFile True t' (voter_file s),
            errorMessage := VoteCast, inputBuffer := [], candidateID := []\<rparr>"
    using r fv v0 ne cne cv u res by (simp add: submitVote_def Let_def vid [symmetric])
  then show ?thesis using that cv reg it rt by blast
qed

lemma saveBlockchainToFile_True: "saveBlockchainToFile True l f = Some (saveBlocks (blocks l))"
  by (simp add: saveBlockchainToFile_def)

lemma session_inv_submitVote:
  assumes inv: "session_inv H s" and r: "submitVote H alloc s = Inr s'"
  shows "session_inv H s'"
proof (cases "c_str (take 15 (inputBuffer s)) = [] \<or> findVoter (voterTree s) (c_str (take 15 (inputBuffer s))) = None \<or>
         (\<exists>v. findVoter (voterTree s) (c_str (take 15 (inputBuffer s))) = Some v \<and> voted v \<noteq> 0) \<or>
         c_str (candidateID s) = []")
  case True
  then show ?thesis using submitVote_message [OF r] inv session_inv_message by metis
next
  case False
  define vid where "vid = c_str (take 15 (inputBuffer s))"
  from False obtain voter where ne: "vid \<noteq> []" and fv: "findVoter (voterTree s) vid = Some voter"
    and v0: "voted voter = 0" and cne: "c_str (candidateID s) \<noteq> []"
    unfolding vid_def by auto
  obtain bc' lf' t' where cv: "castVote H alloc True vid (candidateID s) (bc s, ledger_file s) = Inr (bc', lf')"
    and reg: "regmap (voterTree s) vid = Some 0" and it: "registry_inv t'"
    and rt: "regmap t' = (regmap (voterTree s))(vid \<mapsto> 1)"
    and s': "s' = s\<lparr>bc := bc', ledger_file := lf', voterTree := t',
            voter_file := saveTreeToBinaryFile True t' (voter_file s),
            errorMessage := VoteCast, inputBuffer := [], candidateID := []\<rparr>"
    using submitVote_marks [OF inv r vid_def ne fv v0 cne] by blast
  have i: "registry_inv (voterTree s)" "distinct (map bvoterID (blocks (bc s)))"
    "\<forall>b \<in> set (blocks (bc s)). block_ok b \<and> length (bvoterID b) \<le> 15 \<and> length (candID b) \<le> 31 \<and>
       regmap (voterTree s) (bvoterID b) = Some 1"
    "chain_ok H (blocks (bc s))" "cstring (candidateID s)" "length (candidateID s) \<le> 31"
    "blocks (bc s) = [] \<longrightarrow> ledger_file s = None"
    using inv by (simp_all add: session_inv_def list_all_iff)
  have fresh: "vid \<notin> set (map bvoterID (blocks (bc s)))" using i(3) reg by auto
  have vl: "length vid \<le> 15" using length_c_str [of "take 15 (inputBuffer s)"] vid_def by simp
  have old: "\<forall>b \<in> set (blocks (bc s)). block_ok b \<and> length (bvoterID b) \<le> 15 \<and> length (candID b) \<le> 31 \<and>
       regmap t' (bvoterID b) = Some 1"
    using i(3) rt by simp
  have ch: "chain_ok H (blocks bc')" using chain_ok_castVote [OF i(4) cv] .
  have dk: "\<forall>k \<in> dom (regmap t'). length k \<le> 7" using inv reg rt by (auto simp: session_inv_def)
  show ?thesis
  proof (cases alloc)
    case True
    have b': "blocks bc' = blocks (bc s) @ [\<lparr>bvoterID = vid, candID = candidateID s, prevhash = chainHash H (blocks (bc s))\<rparr>]"
      using castVote_blocks [where H = H and ok = True and v = vid and c = "candidateID s" and bc = "bc s"
          and f = "ledger_file s" and bc' = bc' and f' = lf'] cv True by simp
    have ro: "root_ok H bc' \<and> lf' = saveBlockchainToFile True bc' (ledger_file s)"
      using castVote_root [where H = H and ok = True and v = vid and c = "candidateID s" and bc = "bc s"
          and f = "ledger_file s" and bc' = bc' and f' = lf'] cv True by simp
    show ?thesis using s' it i(2,5,6) fresh old ch ro b' rt vl dk
      by (simp add: session_inv_def list_all_iff block_ok_def vid_def saveBlockchainToFile_True)
  next
    case False
    then have "bc' = bc s \<and> lf' = ledger_file s" using castVote_cases [OF cv] by simp
    then show ?thesis using s' it inv old dk
      by (simp add: session_inv_def list_all_iff)
  qed
qed

lemma ui_inv_submitVote:
  "ui_inv s \<Longrightarrow> currentScreen s = 2 \<Longrightarrow> submitVote H alloc s = Inr s' \<Longrightarrow> ui_inv s' \<and> currentScreen s' = 2"
  by (auto simp: submitVote_def ui_inv_def Let_def split: option.splits if_splits sum.splits prod.splits)

lemma inv_voteScreen:
  assumes inv: "session_inv H s" "ui_inv s" and sc: "currentScreen s = 2"
    and h: "handleCastVoteEvents H e s = Inr s'"
  shows "session_inv H s' \<and> ui_inv s'"
proof (cases e)
  case (Click x y)
  define s2 where "s2 = (let s1 = (if inRect x y 350 650 200 250 then s\<lparr>inputFocus := 0\<rparr> else s)
    in if inRect x y 350 650 300 350 then s1\<lparr>inputFocus := 1\<rparr> else s1)"
  have i2: "session_inv H s2" "ui_inv s2" "currentScreen s2 = 2"
    using inv sc by (simp_all add: s2_def Let_def session_inv_def ui_inv_def)
  have "s' = s2\<lparr>currentScreen := 0, errorMessage := NoMessage, inputBuffer := [], candidateID := []\<rparr> \<or>
        submitVote H True s2 = Inr s' \<or> s' = s2"
    using h Click by (auto simp: handleCastVoteEvents_def s2_def Let_def split: if_splits)
  then show ?thesis
    using i2 session_inv_submitVote [OF i2(1)] ui_inv_submitVote [OF i2(2,3)]
    by (auto simp: session_inv_def ui_inv_def)
next
  case (TextInput str)
  then show ?thesis using inv sc h length_strncat_buf [of "inputBuffer s" 50 str] length_strncat_buf [of "candidateID s" 32 str]
    by (auto simp: handleCastVoteEvents_def session_inv_def ui_inv_def split: if_splits)
next
  case (KeyDown k)
  then show ?thesis using inv sc h
    by (auto simp: handleCastVoteEvents_def session_inv_def ui_inv_def backspace_def split: if_splits key.splits)
qed (insert inv h, auto simp: handleCastVoteEvents_def)

lemma inv_dispatch:
  "session_inv H s \<Longrightarrow> ui_inv s \<Longrightarrow> dispatch H e s = Inr s' \<Longrightarrow> session_inv H s' \<and> ui_inv s'"
  by (auto simp: dispatch_def ui_inv_def [of s] inv_mainMenu inv_candidateScreen
      dest: inv_registerScreen inv_voteScreen split: option.splits sum.splits if_splits)

lemma inv_step:
  "session_inv H s \<Longrightarrow> ui_inv s \<Longrightarrow> step H s ev = Inr s' \<Longrightarrow> \<not> (\<exists>junk now jr. ev = Restart junk now jr) \<Longrightarrow>
   session_inv H s' \<and> ui_inv s'"
  by (cases ev) (auto simp: session_inv_same ui_inv_def dest: inv_dispatch split: if_splits option.splits)

lemma reach_inv: "reach H s \<Longrightarrow> session_inv H s \<and> ui_inv s"
  by (induction rule: reach.induct) (auto simp: session_inv_start dest: inv_step)

lemma reach_session_inv: "reach H s \<Longrightarrow> session_inv H s"
  using reach_inv by blast


lemma reach_run:
  "reach H s \<Longrightarrow> run H s evs = Inr s' \<Longrightarrow> list_all (\<lambda>ev. \<forall>junk now jr. ev \<noteq> Restart junk now jr) evs \<Longrightarrow> reach H s'"
proof (induction evs arbitrary: s)
  case (Cons ev evs)
  obtain s1 where st: "step H s ev = Inr s1" and rn: "run H s1 evs = Inr s'"
    using Cons.prems(2) by (cases "step H s ev") simp_all
  have "reach H s1" using reach.step [OF Cons.prems(1) st] Cons.prems(3) by simp
  then show ?case using Cons.IH rn Cons.prems(3) by simp
qed simp

lemma run_append:
  "run H s (xs @ ys) = (case run H s xs of Inl e \<Rightarrow> Inl e | Inr s' \<Rightarrow> run H s' ys)"
  by (induction xs arbitrary: s) (simp_all split: sum.split)

lemma session_storable:
  "session_inv H s \<Longrightarrow> (\<forall>x. length (H x) = SHA256_DIGEST_LENGTH) \<Longrightarrow> list_all block_storable (blocks (bc s))"
  by (auto simp: session_inv_def list_all_iff block_storable_def dest: chain_ok_prevhash)

lemma restart_ledger:
  assumes "session_inv H s" "\<forall>x. length (H x) = SHA256_DIGEST_LENGTH"
  shows "bc (restart junk now jr s) = \<lparr>blocks = blocks (bc s), merkle_root = junk, merkle_tree = []\<rparr>"
proof (cases "blocks (bc s) = []")
  case True
  then show ?thesis using assms(1)
    by (simp add: restart_def startSession_def initializeBlockchain_def loadBlockchainFromFile_def session_inv_def)
next
  case False
  then show ?thesis using assms(1) loadBlocks_saveBlocks [OF session_storable [OF assms], of "[]"]
    by (simp add: restart_def startSession_def initializeBlockchain_def loadBlockchainFromFile_def session_inv_def)
qed


lemma hashCompare_cong: "hashCompare a b \<Longrightarrow> hashCompare a c \<longleftrightarrow> hashCompare b c"
  by (simp add: hashCompare_def)

lemma dom_regmap: "regmap t x = None \<longleftrightarrow> x \<notin> set (keys t)"
  by (simp add: regmap_def map_of_eq_None_iff set_keys_display)

lemma loadBlocks_saved: "list_all block_storable bs \<Longrightarrow> loadBlocks (saveBlocks bs) = bs"
  using loadBlocks_saveBlocks [of bs "[]"] by simp

lemma strncat_empty: "cstring x \<Longrightarrow> length x < n \<Longrightarrow> strncat_buf n [] x = x"
  by (simp add: strncat_buf_def)

lemma vote_events_run:
  assumes ui: "ui_inv s" and sc: "currentScreen s = 0" and q: "\<not> quit s"
    and v: "cstring v" "length v \<le> 15" and c: "cstring c" "length c \<le> 31"
  shows "run H s (vote_events v c) =
    (case submitVote H True (s\<lparr>currentScreen := 2, errorMessage := NoMessage, inputBuffer := v, inputFocus := 1,
        candidateID := c\<rparr>) of Inl e \<Rightarrow> Inl (LedgerFailure e) | Inr s' \<Rightarrow> Inr s')"
proof -
  have e: "inputBuffer s = []" "candidateID s = []" using ui sc by (simp_all add: ui_inv_def)
  show ?thesis using sc q e v c
    by (simp add: dispatch_def handleMainMenuEvents_def handleCastVoteEvents_def inRect_def strncat_empty
        split: sum.split)
qed

lemma submitVote_Inr:
  assumes "length (blocks (bc s)) < MAX_MERKLE_TREE_SIZE"
  shows "\<exists>s'. submitVote H True s = Inr s'"
proof (cases "submitVote H True s")
  case (Inl e)
  then obtain vid where "castVote H True True vid (candidateID s) (bc s, ledger_file s) = Inl e"
    by (auto simp: submitVote_def Let_def split: if_splits option.splits sum.splits prod.splits)
  then show ?thesis using castVote_Inr [OF assms, of H True vid "candidateID s" "ledger_file s"] by auto
qed simp

lemmas gui_eval = step.simps dispatch_def handleMainMenuEvents_def handleRegisterVoterEvents_def
  handleCastVoteEvents_def handleCandidateManagementEvents_def inRect_def strcat_buf_def strncat_buf_def
  registerVoter_def submitVote_def startSession_def restart_def initializeTree_def loadTreeFromBinaryFile_def
  initializeBlockchain_def loadBlockchainFromFile_def insertVoter_def createVoterNode_def
  balanceAfterInsert.simps(2) castVote.simps Let_def chainHash_def addToMerkleTree_def
  calculateMerkleRoot_def merkle_levels.simps merkle_pass.simps MAX_MERKLE_TREE_SIZE_def contentHash_def
  hashInput_def toString_def c_str_def saveTreeToBinaryFile_def saveBlockchainToFile_def
  loadCandidatesFromFile_def setVotingTime_def


lemma demo_reach: "reach toyH (projr (run toyH demo_start demo_events))"
  by (rule reach_run [OF reach.start [where cf = None and tf = None and now = 0 and junk = "[]" and jr = demo_roster],
      where evs = demo_events]) (simp_all add: gui_eval)

lemma demo_facts:
  "map bvoterID (blocks (bc (projr (run toyH demo_start demo_events)))) = [[65], [66]] \<and>
   map candID (blocks (bc (projr (run toyH demo_start demo_events)))) = [[67], [68]] \<and>
   length (blocks (bc (projr (run toyH demo_start demo_events)))) = 2 \<and>
   roster (projr (run toyH demo_start demo_events)) = demo_roster \<and>
   time_file (projr (run toyH demo_start demo_events)) = Some (print_long 30) \<and>
   \<not> quit (projr (run toyH demo_start demo_events))"
  by (simp add: gui_eval)

lemma long_reach: "reach toyH (projr (run toyH demo_start long_events))"
  by (rule reach_run [OF reach.start [where cf = None and tf = None and now = 0 and junk = "[]" and jr = demo_roster],
      where evs = long_events]) (simp_all add: gui_eval)

lemma long_facts:
  "inputBuffer (projr (run toyH demo_start long_events)) = long_id \<and>
   regmap (voterTree (projr (run toyH demo_start long_events))) (take 7 long_id) = Some 0"
  by (simp add: gui_eval regmap_def)

subsection \<open>Properties of a session\<close>

text \<open>C1. No voter is in the ledger twice: in every session reachable from a fresh
  installation without a restart, the ledger's voter identifiers are distinct and each
  belongs to a registered voter whom the registry marks as having voted.\<close>

theorem session_no_double_vote:
  "reach H s \<Longrightarrow>
   distinct (map bvoterID (blocks (bc s))) \<and> (\<forall>b \<in> set (blocks (bc s)). regmap (voterTree s) (bvoterID b) = Some 1)"
  using reach_session_inv [of H s] by (simp add: session_inv_def list_all_iff)

theorem session_no_double_vote_witness:
  "reach toyH (projr (run toyH demo_start demo_events)) \<and>
   distinct (map bvoterID (blocks (bc (projr (run toyH demo_start demo_events))))) \<and>
   map bvoterID (blocks (bc (projr (run toyH demo_start demo_events)))) = [[65], [66]] \<and>
   regmap (voterTree (projr (run toyH demo_start demo_events))) [65] = Some 1 \<and>
   regmap (voterTree (projr (run toyH demo_start demo_events))) [66] = Some 1"
proof -
  define S where "S = projr (run toyH demo_start demo_events)"
  have r: "reach toyH S" and f: "map bvoterID (blocks (bc S)) = [[65], [66]]"
    using demo_reach demo_facts unfolding S_def by simp_all
  have d: "distinct (map bvoterID (blocks (bc S)))"
    and a: "\<forall>b \<in> set (blocks (bc S)). regmap (voterTree S) (bvoterID b) = Some 1"
    using session_no_double_vote [OF r] by simp_all
  have "\<forall>v \<in> set (map bvoterID (blocks (bc S))). regmap (voterTree S) v = Some 1" using a by auto
  then have "regmap (voterTree S) [65] = Some 1 \<and> regmap (voterTree S) [66] = Some 1" using f by simp
  then show ?thesis unfolding S_def [symmetric] using r d f by simp
qed

text \<open>C2. Voting always goes through: from the main menu of a reachable session, a
  registered voter who has not voted, entering an identifier of at most 15 characters
  and a non-empty candidate identifier, while the ledger has room, gets the vote cast
  by the click sequence of the cast-vote screen: the block is appended with the chain
  hash of its predecessor and the registry marks the voter.\<close>

theorem vote_progress:
  assumes r: "reach H s" and sc: "currentScreen s = 0" and q: "\<not> quit s"
    and reg: "regmap (voterTree s) v = Some 0" and v: "cstring v" "v \<noteq> []" "length v \<le> 15"
    and c: "cstring c" "c \<noteq> []" "length c \<le> 31" and cap: "length (blocks (bc s)) < MAX_MERKLE_TREE_SIZE"
  shows "\<exists>s'. run H s (vote_events v c) = Inr s' \<and>
    blocks (bc s') = blocks (bc s) @ [\<lparr>bvoterID = v, candID = c, prevhash = chainHash H (blocks (bc s))\<rparr>] \<and>
    regmap (voterTree s') = (regmap (voterTree s))(v \<mapsto> 1) \<and> errorMessage s' = VoteCast"
proof -
  define s5 where "s5 = s\<lparr>currentScreen := 2, errorMessage := NoMessage, inputBuffer := v, inputFocus := 1,
        candidateID := c\<rparr>"
  have inv: "session_inv H s" "ui_inv s" using reach_inv [OF r] by simp_all
  have i5: "session_inv H s5" using inv(1) v c by (simp add: s5_def session_inv_def)
  have vid: "v = c_str (take 15 (inputBuffer s5))" using v by (simp add: s5_def)
  have ri: "registry_inv (voterTree s5)" using i5 by (simp add: session_inv_def)
  obtain voter where fv: "findVoter (voterTree s5) v = Some voter" and v0: "voted voter = 0"
    using findVoter_regmap [OF ri v(1)] reg by (cases "findVoter (voterTree s5) v") (simp_all add: s5_def)
  have cne: "c_str (candidateID s5) \<noteq> []" using c by (simp add: s5_def)
  obtain s' where sv: "submitVote H True s5 = Inr s'"
    using submitVote_Inr [of s5 H] cap by (auto simp: s5_def)
  obtain bc' lf' t' where cv: "castVote H True True v (candidateID s5) (bc s5, ledger_file s5) = Inr (bc', lf')"
    and rt: "regmap t' = (regmap (voterTree s5))(v \<mapsto> 1)"
    and s': "s' = s5\<lparr>bc := bc', ledger_file := lf', voterTree := t',
            voter_file := saveTreeToBinaryFile True t' (voter_file s5),
            errorMessage := VoteCast, inputBuffer := [], candidateID := []\<rparr>"
    using submitVote_marks [OF i5 sv vid v(2) fv v0 cne] by blast
  have "run H s (vote_events v c) = Inr s'"
    using vote_events_run [OF inv(2) sc q v(1,3) c(1,3), of H] sv by (simp add: s5_def)
  moreover have "blocks bc' = blocks (bc s) @ [\<lparr>bvoterID = v, candID = c, prevhash = chainHash H (blocks (bc s))\<rparr>]"
    using castVote_blocks [OF cv] by (simp add: s5_def)
  ultimately show ?thesis using s' rt by (simp add: s5_def)
qed

theorem vote_progress_witness:
  "reach (\<lambda>x. x) (projr (run (\<lambda>x. x) (startSession None None None None 0 [] []) (register_events [65]))) \<and>
   currentScreen (projr (run (\<lambda>x. x) (startSession None None None None 0 [] []) (register_events [65]))) = 0 \<and>
   \<not> quit (projr (run (\<lambda>x. x) (startSession None None None None 0 [] []) (register_events [65]))) \<and>
   regmap (voterTree (projr (run (\<lambda>x. x) (startSession None None None None 0 [] []) (register_events [65])))) [65] = Some 0 \<and>
   length (blocks (bc (projr (run (\<lambda>x. x) (startSession None None None None 0 [] []) (register_events [65]))))) < MAX_MERKLE_TREE_SIZE \<and>
   (\<exists>s'. run (\<lambda>x. x) (projr (run (\<lambda>x. x) (startSession None None None None 0 [] []) (register_events [65]))) (vote_events [65] [67]) = Inr s' \<and>
      blocks (bc s') = [\<lparr>bvoterID = [65], candID = [67], prevhash = []\<rparr>] \<and> errorMessage s' = VoteCast)"
proof -
  define S where "S = projr (run (\<lambda>x. x) (startSession None None None None 0 [] []) (register_events [65]))"
  have r: "reach (\<lambda>x. x) S"
    unfolding S_def
    by (rule reach_run [OF reach.start [where cf = None and tf = None and now = 0 and junk = "[]" and jr = "[]"],
        where evs = "register_events [65]"])
      (simp_all add: gui_eval)
  have h: "currentScreen S = 0" "\<not> quit S" "regmap (voterTree S) [65] = Some 0"
    "length (blocks (bc S)) < MAX_MERKLE_TREE_SIZE" "blocks (bc S) = []"
    unfolding S_def by (simp_all add: gui_eval regmap_def MAX_MERKLE_TREE_SIZE_def)
  obtain s' where "run (\<lambda>x. x) S (vote_events [65] [67]) = Inr s'"
    "blocks (bc s') = blocks (bc S) @ [\<lparr>bvoterID = [65], candID = [67], prevhash = chainHash (\<lambda>x. x) (blocks (bc S))\<rparr>]"
    "errorMessage s' = VoteCast"
    using vote_progress [OF r h(1,2,3), where c = "[67]"] h(4) by auto
  then show ?thesis using r h unfolding S_def [symmetric] by (auto simp: chainHash_def)
qed

text \<open>C16. The ledger of every reachable session with at least one vote verifies:
  \<open>verifyChain\<close> answers 1 with every link verified.\<close>

theorem session_ledger_verifies:
  "reach H s \<Longrightarrow> blocks (bc s) \<noteq> [] \<Longrightarrow> verifyChain H (bc s) = (1, replicate (length (blocks (bc s)) - 1) True)"
  using reach_session_inv [of H s]
  by (simp add: session_inv_def verifyChain_def chain_ok_def linked_verdicts list_all_iff)

theorem session_ledger_verifies_witness:
  "reach toyH (projr (run toyH demo_start demo_events)) \<and> blocks (bc (projr (run toyH demo_start demo_events))) \<noteq> [] \<and>
   verifyChain toyH (bc (projr (run toyH demo_start demo_events))) = (1, [True])"
proof -
  define S where "S = projr (run toyH demo_start demo_events)"
  have r: "reach toyH S" and l: "length (blocks (bc S)) = 2"
    using demo_reach demo_facts unfolding S_def by simp_all
  have ne: "blocks (bc S) \<noteq> []" using l by auto
  show ?thesis unfolding S_def [symmetric] using session_ledger_verifies [OF r ne] r ne l by simp
qed


text \<open>C15. The end of the vote: in a reachable session with at least one vote and a
  roster of distinct identifiers that fits the counter array, the first iteration of
  the main loop after the voting time has passed ends the program with the tally of
  \<open>countVotes\<close>, which passes the integrity check and gives each candidate the number of
  votes cast for it.\<close>

theorem voting_end_tally:
  assumes "reach H s" "\<not> quit s" "hasTimePassed (time_file s) now junk = Some 1" "blocks (bc s) \<noteq> []"
    "roster_ok (roster s)" "length (roster s) \<le> MAX_CANDIDATES"
  shows "step H s (Frame now junk) = Inr (s\<lparr>tally := Some (Inr (tally_spec (roster s) (blocks (bc s)))), quit := True\<rparr>)"
proof -
  have "root_ok H (bc s)" "list_all block_ok (blocks (bc s))"
    using reach_session_inv [OF assms(1)] assms(4) by (simp_all add: session_inv_def list_all_iff)
  then show ?thesis using assms(2-6) by (simp add: countVotes_Inr tally_blocks_spec)
qed

theorem voting_end_tally_witness:
  "reach toyH (projr (run toyH demo_start demo_events)) \<and> \<not> quit (projr (run toyH demo_start demo_events)) \<and>
   hasTimePassed (time_file (projr (run toyH demo_start demo_events))) 30 0 = Some 1 \<and>
   blocks (bc (projr (run toyH demo_start demo_events))) \<noteq> [] \<and>
   roster_ok (roster (projr (run toyH demo_start demo_events))) \<and>
   length (roster (projr (run toyH demo_start demo_events))) \<le> MAX_CANDIDATES \<and>
   step toyH (projr (run toyH demo_start demo_events)) (Frame 30 0) =
     Inr ((projr (run toyH demo_start demo_events))\<lparr>tally := Some (Inr [1, 1]), quit := True\<rparr>)"
proof -
  define S where "S = projr (run toyH demo_start demo_events)"
  have r: "reach toyH S" and f: "map candID (blocks (bc S)) = [[67], [68]]" "length (blocks (bc S)) = 2"
    "roster S = demo_roster" "time_file S = Some (print_long 30)" "\<not> quit S"
    using demo_reach demo_facts unfolding S_def by simp_all
  have ne: "blocks (bc S) \<noteq> []" using f(2) by auto
  have t: "hasTimePassed (time_file S) 30 0 = Some 1"
    using scan_print_long [of 30] f(4) by (simp add: hasTimePassed_def long_ok_def)
  have o: "roster_ok (roster S)" "length (roster S) \<le> MAX_CANDIDATES"
    using f(3) by (simp_all add: roster_ok_def MAX_CANDIDATES_def)
  have ts: "tally_spec (roster S) (blocks (bc S)) = [1, 1]"
    using f(1,3) by (simp add: tally_spec_def)
  show ?thesis unfolding S_def [symmetric]
    using voting_end_tally [OF r f(5) t ne o] r f(5) t ne o ts by simp
qed





text \<open>C20. A voter identifier of more than 7 characters can never vote: the register
  screen stores only its first 7 characters, so the cast-vote screen, which looks up
  up to 15 characters, answers that the voter is not registered.\<close>

theorem long_id_not_registered:
  "reach H s \<Longrightarrow> 7 < length (c_str (take 15 (inputBuffer s))) \<Longrightarrow>
   submitVote H alloc s = Inr (s\<lparr>errorMessage := VoterNotRegistered\<rparr>)"
proof -
  assume r: "reach H s" and l: "7 < length (c_str (take 15 (inputBuffer s)))"
  have i: "registry_inv (voterTree s)" "\<forall>k \<in> dom (regmap (voterTree s)). length k \<le> 7"
    using reach_session_inv [OF r] by (simp_all add: session_inv_def)
  then have "c_str (take 15 (inputBuffer s)) \<notin> dom (regmap (voterTree s))" using l by (meson not_le)
  then have "regmap (voterTree s) (c_str (take 15 (inputBuffer s))) = None" by blast
  then have "findVoter (voterTree s) (c_str (take 15 (inputBuffer s))) = None"
    using findVoter_regmap [OF i(1), of "c_str (take 15 (inputBuffer s))"] by simp
  moreover have "c_str (take 15 (inputBuffer s)) \<noteq> []" using l by auto
  ultimately show ?thesis by (simp add: submitVote_def Let_def)
qed

theorem long_id_not_registered_witness:
  "reach toyH (projr (run toyH demo_start long_events)) \<and>
   regmap (voterTree (projr (run toyH demo_start long_events))) (take 7 long_id) = Some 0 \<and>
   7 < length (c_str (take 15 (inputBuffer (projr (run toyH demo_start long_events))))) \<and>
   submitVote toyH True (projr (run toyH demo_start long_events)) =
     Inr ((projr (run toyH demo_start long_events))\<lparr>errorMessage := VoterNotRegistered\<rparr>)"
proof -
  define S where "S = projr (run toyH demo_start long_events)"
  have r: "reach toyH S" and f: "inputBuffer S = long_id" "regmap (voterTree S) (take 7 long_id) = Some 0"
    using long_reach long_facts unfolding S_def by simp_all
  have l: "7 < length (c_str (take 15 (inputBuffer S)))" using f(1) by (simp add: c_str_def)
  show ?thesis unfolding S_def [symmetric] using long_id_not_registered [OF r l, where alloc = True] r f(2) l by simp
qed


end
