(* ===== verification/Restart.thy ===== *)
theory Restart
  imports Session
begin

text \<open>
  A restart of \<open>src/gui2.c\<close>: the program ends (closing the window or the end of the
  vote) and \<open>main\<close> runs again, rebuilding its state from the files the session wrote:
  \<open>voter_data.bin\<close> through \<open>initializeTree\<close>, \<open>blockchain_data.bin\<close> through
  \<open>initializeBlockchain\<close>, and \<open>candidates.txt\<close>. The event \<open>Restart junk now jr\<close> of
  \<open>step\<close> (the definition \<open>restart\<close> of \<open>Gui\<close>) models it; \<open>junk\<close> is the indeterminate
  \<open>merkle_root\<close> of the new stack variable \<open>bc\<close>. This theory shows what survives a
  restart: the ledger's blocks, but neither its root nor the registry's search order.
\<close>

abbreviation restart_before :: "event list" where
  "restart_before \<equiv> register_events [65] @ register_events [66] @ register_events [67] @ vote_events [67] [68]"

abbreviation restart_after :: "event list" where
  "restart_after \<equiv> vote_events [67] [68] @ [voteBackButton] @ register_events [67] @ vote_events [67] [68]"

lemma restart_before_reach:
  "reach toyH (projr (run toyH demo_start restart_before))"
  by (rule reach_run [OF reach.start [where cf = None and tf = None and now = 0 and junk = "[]" and jr = demo_roster],
      where evs = restart_before]) (simp_all add: gui_eval)

lemma restart_before_run:
  "run toyH demo_start restart_before = Inr (projr (run toyH demo_start restart_before))"
  by (simp add: gui_eval)

lemma restart_before_facts:
  "length (merkle_root (bc (projr (run toyH demo_start restart_before)))) = 32 \<and>
   blocks (bc (projr (run toyH demo_start restart_before))) = [\<lparr>bvoterID = [67], candID = [68], prevhash = replicate 32 0\<rparr>] \<and>
   voter_file (projr (run toyH demo_start restart_before)) = Some [\<lparr>voterID = [66], voted = 0, height = 2\<rparr>, \<lparr>voterID = [65], voted = 0, height = 1\<rparr>, \<lparr>voterID = [67], voted = 1, height = 1\<rparr>]"
  by (simp add: gui_eval SHA256_DIGEST_LENGTH_def)

lemma restart_after_votes:
  "\<exists>s'. run toyH (restart [] 100 demo_roster (projr (run toyH demo_start restart_before))) restart_after = Inr s' \<and>
     map bvoterID (blocks (bc s')) = [[67], [67]] \<and> errorMessage s' = VoteCast"
proof -
  define S1 where "S1 = projr (run toyH demo_start restart_before)"
  have r1: "reach toyH S1" using restart_before_reach unfolding S1_def .
  have f1: "blocks (bc S1) = [\<lparr>bvoterID = [67], candID = [68], prevhash = replicate 32 0\<rparr>]"
    "voter_file S1 = Some [\<lparr>voterID = [66], voted = 0, height = 2\<rparr>, \<lparr>voterID = [65], voted = 0, height = 1\<rparr>, \<lparr>voterID = [67], voted = 1, height = 1\<rparr>]"
    using restart_before_facts unfolding S1_def by simp_all
  have h: "\<forall>x. length (toyH x) = SHA256_DIGEST_LENGTH" by (simp add: SHA256_DIGEST_LENGTH_def min_def)
  define S2 where "S2 = restart [] 100 demo_roster S1"
  have b2: "bc S2 = \<lparr>blocks = [\<lparr>bvoterID = [67], candID = [68], prevhash = replicate 32 0\<rparr>], merkle_root = [], merkle_tree = []\<rparr>"
    using restart_ledger [OF reach_session_inv [OF r1] h, of "[]" 100 demo_roster] f1(1) unfolding S2_def by simp
  have t2: "voterTree S2 = left_spine [\<lparr>voterID = [66], voted = 0, height = 2\<rparr>, \<lparr>voterID = [65], voted = 0, height = 1\<rparr>, \<lparr>voterID = [67], voted = 1, height = 1\<rparr>]"
    using f1(2) unfolding S2_def by (simp add: restart_def startSession_def initializeTree_def loadTreeFromBinaryFile_def load_spine)
  have u2: "currentScreen S2 = 0" "inputBuffer S2 = []" "candidateID S2 = []" "regCandidateID S2 = []"
    "quit S2 = False" "inputFocus S2 = 0"
    unfolding S2_def by (simp_all add: restart_def startSession_def)
  show ?thesis unfolding S1_def [symmetric] S2_def [symmetric]
    using b2 t2 u2 by (simp add: gui_eval)
qed

subsection \<open>Properties of a restart\<close>

text \<open>C19. A restart loses the Merkle root: the reloaded ledger has exactly the saved
  blocks, but its \<open>merkle_root\<close> is whatever the stack held, so unless those bytes
  happen to equal the root, \<open>countVotes\<close> reports an integrity failure for an
  untampered ledger.\<close>

theorem restart_tally:
  assumes "reach H s" "\<forall>x. length (H x) = SHA256_DIGEST_LENGTH" "blocks (bc s) \<noteq> []"
    "\<not> hashCompare (merkle_root (bc s)) junk"
  shows "blocks (bc (restart junk now jr s)) = blocks (bc s) \<and>
         countVotes H (bc (restart junk now jr s)) rs = Inl IntegrityDisrupted"
proof -
  have inv: "session_inv H s" using reach_session_inv [OF assms(1)] .
  then obtain r where r: "calculateMerkleRoot H (blocks (bc s)) = Inr r" "hashCompare r (merkle_root (bc s))"
    using assms(3) by (auto simp: session_inv_def root_ok_def)
  have "\<not> hashCompare r junk" using hashCompare_cong [OF r(2)] assms(4) by simp
  then show ?thesis using restart_ledger [OF inv assms(2)] r(1) by (simp add: countVotes_def)
qed

theorem restart_tally_witness:
  "reach toyH (projr (run toyH demo_start restart_before)) \<and>
   (\<forall>x. length (toyH x) = SHA256_DIGEST_LENGTH) \<and>
   blocks (bc (projr (run toyH demo_start restart_before))) \<noteq> [] \<and>
   \<not> hashCompare (merkle_root (bc (projr (run toyH demo_start restart_before)))) [] \<and>
   blocks (bc (restart [] 100 demo_roster (projr (run toyH demo_start restart_before)))) =
     blocks (bc (projr (run toyH demo_start restart_before))) \<and>
   countVotes toyH (bc (restart [] 100 demo_roster (projr (run toyH demo_start restart_before)))) demo_roster =
     Inl IntegrityDisrupted"
proof -
  define S1 where "S1 = projr (run toyH demo_start restart_before)"
  have r1: "reach toyH S1" using restart_before_reach unfolding S1_def .
  have f1: "blocks (bc S1) \<noteq> []" "length (merkle_root (bc S1)) = 32"
    using restart_before_facts unfolding S1_def by simp_all
  have h: "\<forall>x. length (toyH x) = SHA256_DIGEST_LENGTH" by (simp add: SHA256_DIGEST_LENGTH_def min_def)
  have j: "\<not> hashCompare (merkle_root (bc S1)) []"
    using f1(2) by (auto simp: hashCompare_def SHA256_DIGEST_LENGTH_def)
  show ?thesis unfolding S1_def [symmetric]
    using restart_tally [OF r1 h f1(1) j, of 100 demo_roster demo_roster] r1 h f1(1) j by simp
qed


end
