(* ===== verification/Diagnostics.thy ===== *)
theory Diagnostics
  imports Roster Registry_Snapshot Voting_Window
begin

text \<open>
  The diagnostic output of the program: \<open>hashPrinter\<close> and \<open>printMerkleRoot\<close> of
  \<open>src/blockchain.c\<close>, \<open>displayTree\<close> and \<open>displayVoterDataFromBinaryFile\<close> of
  \<open>src/avl.c\<close>, and \<open>displayCandidates\<close> of \<open>src/blockchain.c\<close>, which key 1 of the
  candidate screen calls. Each is modelled as the bytes it writes to \<open>stdout\<close>;
  \<open>None\<close> is a failed \<open>fopen\<close> (the message goes to \<open>stderr\<close> through \<open>perror\<close>) or,
  for \<open>hashPrinter\<close>, a read past the end of the digest. A string literal of the
  source is \<open>ascii\<close> of the same Isabelle string.
\<close>

definition ascii :: "string \<Rightarrow> byte list" where
  "ascii s = map (\<lambda>c. word_of_nat (of_char c)) s"

text \<open>\<open>printf("%02x", hash[i])\<close>: two lower-case hexadecimal digits.\<close>

definition hex_digit :: "nat \<Rightarrow> byte" where
  "hex_digit k = (if k < 10 then word_of_nat (48 + k) else word_of_nat (87 + k))"

definition hex_byte :: "byte \<Rightarrow> byte list" where
  "hex_byte b = [hex_digit (unat b div 16), hex_digit (unat b mod 16)]"

definition hashPrinter :: "digest \<Rightarrow> nat \<Rightarrow> byte list option" where
  "hashPrinter h n = (if n \<le> length h then Some (concat (map hex_byte (take n h)) @ [newline]) else None)"

definition printMerkleRoot :: "blockchain \<Rightarrow> byte list option" where
  "printMerkleRoot bc =
     map_option (\<lambda>out. ascii ''Current Merkle Root: '' @ out) (hashPrinter (merkle_root bc) SHA256_DIGEST_LENGTH)"

text \<open>\<open>printf("Voter ID: %s, Voted: %d\n", ...)\<close>, the line both voter listings print.\<close>

definition voter_line :: "byte list \<Rightarrow> int \<Rightarrow> byte list" where
  "voter_line vid v = ascii ''Voter ID: '' @ c_str vid @ ascii '', Voted: '' @ print_long v @ [newline]"

definition displayTree :: "vtree \<Rightarrow> byte list" where
  "displayTree t = concat (map (\<lambda>(vid, v). voter_line vid v) (displayVoterStatus t))"

text \<open>\<open>displayVoterDataFromBinaryFile\<close>: the records of the snapshot in file order.\<close>

definition displayVoterDataFromBinaryFile :: "snapshot option \<Rightarrow> byte list option" where
  "displayVoterDataFromBinaryFile file =
     (case file of
        None \<Rightarrow> None
      | Some rs \<Rightarrow> Some (ascii ''Voter Data:'' @ [newline] @ concat (map (\<lambda>v. voter_line (voterID v) (voted v)) rs)))"

text \<open>One line of \<open>displayCandidates\<close>: \<open>strcspn\<close> cuts the newline, \<open>strtok(line, ",")\<close>
  gives the identifier (leading commas skipped) and writes a NUL over the comma after
  it, \<open>strtok(NULL, ",")\<close> the name, which unlike the loader's \<open>strtok(NULL, "")\<close>
  skips leading commas and stops at the next comma. A line without both tokens is
  printed as \<open>line\<close> then reads: up to the NUL the first call wrote.\<close>

definition displayCandidateLine :: "byte list \<Rightarrow> byte list" where
  "displayCandidateLine chunk =
     (let line = takeWhile (\<lambda>c. c \<noteq> newline) (c_str chunk);
          s = dropWhile (\<lambda>c. c = comma) line;
          bad = ascii ''Error: Invalid candidate format in line: ''
      in if s = [] then bad @ line @ [newline]
         else
           let id = takeWhile (\<lambda>c. c \<noteq> comma) s;
               s2 = dropWhile (\<lambda>c. c = comma) (drop (Suc (length id)) s)
           in if s2 = [] then bad @ take (length line - length s + length id) line @ [newline]
              else ascii ''ID: '' @ id @ ascii '', Name: '' @ takeWhile (\<lambda>c. c \<noteq> comma) s2 @ [newline])"

definition displayCandidates :: "byte list option \<Rightarrow> byte list option" where
  "displayCandidates file =
     (case file of
        None \<Rightarrow> None
      | Some f \<Rightarrow> Some ([newline] @ ascii ''=== Candidates ==='' @ [newline] @
                      concat (map displayCandidateLine (fgets_lines f))))"

text \<open>Reading the hexadecimal output back (the inverse a reader of the log applies).\<close>

definition hex_val :: "byte \<Rightarrow> nat" where
  "hex_val c = (if unat c \<le> 57 then unat c - 48 else unat c - 87)"

fun unhex :: "byte list \<Rightarrow> byte list" where
  "unhex (a # b # rest) = word_of_nat (16 * hex_val a + hex_val b) # unhex rest"
| "unhex _ = []"

subsection \<open>Lemmas on the output\<close>

lemma unat_hex_digit: "k < 16 \<Longrightarrow> unat (hex_digit k) = (if k < 10 then 48 + k else 87 + k)"
  by (cases "k < 10") (simp_all only: hex_digit_def if_True if_False unat_of_nat, simp_all)

lemma hex_val_digit: "k < 16 \<Longrightarrow> hex_val (hex_digit k) = k"
  by (simp add: hex_val_def unat_hex_digit)

lemma unhex_hex_byte: "unhex (hex_byte b @ rest) = b # unhex rest"
proof -
  have "unat b < 256" using unsigned_less [of b, where 'a = nat] by simp
  then have lt: "unat b div 16 < 16" "unat b mod 16 < 16" by simp_all
  have "16 * (unat b div 16) + unat b mod 16 = unat b" by simp
  then have "(word_of_nat (16 * (unat b div 16) + unat b mod 16) :: byte) = word_of_nat (unat b)" by (simp only:)
  then have e: "(word_of_nat (16 * (unat b div 16) + unat b mod 16) :: byte) = b" by simp
  show ?thesis by (simp only: hex_byte_def append_Cons append_Nil unhex.simps hex_val_digit [OF lt(1)]
      hex_val_digit [OF lt(2)] e)
qed

lemma unhex_hex: "unhex (concat (map hex_byte bs)) = bs"
  by (induction bs) (simp_all add: unhex_hex_byte)

lemma length_hex: "length (concat (map hex_byte bs)) = 2 * length bs"
  by (induction bs) (simp_all add: hex_byte_def)

lemma roster_line_single: "fgets_lines (roster_line a) = [roster_line a]"
  using roster_file_lines [of "[a]"] by simp

lemma load_single_line:
  "readName (snd a) \<noteq> [] \<Longrightarrow>
   loadCandidatesFromFile (Some (roster_line a)) old =
     [\<lparr>cand_id = generateUniqueID (fst a), name = take 49 (readName (snd a))\<rparr>]"
  using load_lines_take [of "[]" "[roster_line a]"]
  by (simp add: loadCandidatesFromFile_def roster_line_single parse_roster_line added_candidate_def
      map_filter_simps MAX_CANDIDATES_def)


subsection \<open>Properties of the diagnostics\<close>

text \<open>C39. The digest printout round trip: \<open>hashPrinter\<close> writes two hexadecimal digits
  per byte and a newline, and reading the digits back gives exactly the bytes printed.\<close>

theorem hashPrinter_roundtrip:
  "n \<le> length h \<Longrightarrow> \<exists>out. hashPrinter h n = Some out \<and> length out = 2 * n + 1 \<and> unhex (butlast out) = take n h"
  by (simp add: hashPrinter_def unhex_hex length_hex)

theorem hashPrinter_roundtrip_witness:
  "2 \<le> length [171::byte, 1] \<and>
   (\<exists>out. hashPrinter [171, 1] 2 = Some out \<and> length out = 2 * 2 + 1 \<and> unhex (butlast out) = take 2 [171, 1]) \<and>
   hashPrinter [171, 1] 2 = Some (ascii ''ab01\<newline>'')"
  using hashPrinter_roundtrip [of 2 "[171, 1]"]
  by (simp add: hashPrinter_def hex_byte_def hex_digit_def ascii_def newline_def)

text \<open>C40. The candidate screen shows another name than the tally uses: for a line written
  by \<open>addCandidate\<close>, \<open>displayCandidates\<close> shows the name up to its first comma (after
  leading commas), while \<open>loadCandidatesFromFile\<close> stores the whole name, cut to 49 bytes.\<close>

theorem display_name_differs:
  assumes "dropWhile (\<lambda>c. c = comma) (readName (snd a)) \<noteq> []"
  shows "displayCandidates (Some (roster_line a)) =
           Some ([newline] @ ascii ''=== Candidates ==='' @ [newline] @ ascii ''ID: '' @ generateUniqueID (fst a) @
                 ascii '', Name: '' @ takeWhile (\<lambda>c. c \<noteq> comma) (dropWhile (\<lambda>c. c = comma) (readName (snd a))) @ [newline]) \<and>
         loadCandidatesFromFile (Some (roster_line a)) old =
           [\<lparr>cand_id = generateUniqueID (fst a), name = take 49 (readName (snd a))\<rparr>]"
proof -
  have ne: "readName (snd a) \<noteq> []" using assms by auto
  have t: "cstring (roster_line a)"
    "takeWhile (\<lambda>c. c \<noteq> newline) (roster_line a) = generateUniqueID (fst a) @ [comma] @ readName (snd a)"
    "dropWhile (\<lambda>c. c = comma) (generateUniqueID (fst a) @ [comma] @ readName (snd a)) =
       generateUniqueID (fst a) @ [comma] @ readName (snd a)"
    "takeWhile (\<lambda>c. c \<noteq> comma) (generateUniqueID (fst a) @ [comma] @ readName (snd a)) = generateUniqueID (fst a)"
    using roster_line_tokens [of a] by simp_all
  have "displayCandidateLine (roster_line a) =
          ascii ''ID: '' @ generateUniqueID (fst a) @ ascii '', Name: '' @
          takeWhile (\<lambda>c. c \<noteq> comma) (dropWhile (\<lambda>c. c = comma) (readName (snd a))) @ [newline]"
    using generateUniqueID_ne [of "fst a"]
    by (simp only: displayCandidateLine_def Let_def c_str_of_cstring [OF t(1)] t(2-4)) (insert assms, auto)
  then show ?thesis using load_single_line [OF ne] by (simp add: displayCandidates_def roster_line_single)
qed

theorem display_name_differs_witness:
  "dropWhile (\<lambda>c. c = comma) (readName (ascii ''Bob, Jr\<newline>'')) \<noteq> [] \<and>
   displayCandidates (Some (roster_line ([0, 1, 2, 3, 4, 5, 6, 7, 8, 9], ascii ''Bob, Jr\<newline>''))) =
     Some (ascii ''\<newline>=== Candidates ===\<newline>ID: ABCDE-FGHIJ, Name: Bob\<newline>'') \<and>
   loadCandidatesFromFile (Some (roster_line ([0, 1, 2, 3, 4, 5, 6, 7, 8, 9], ascii ''Bob, Jr\<newline>''))) [] =
     [\<lparr>cand_id = ascii ''ABCDE-FGHIJ'', name = ascii ''Bob, Jr''\<rparr>]"
proof -
  have r: "readName (ascii ''Bob, Jr\<newline>'') = ascii ''Bob, Jr''"
    by (simp add: readName_def fgets_def ascii_def newline_def c_str_def)
  have g: "generateUniqueID [0, 1, 2, 3, 4, 5, 6, 7, 8, 9] = ascii ''ABCDE-FGHIJ''"
    by (simp add: generateUniqueID_def charset_def ascii_def dash_def upt_rec)
  have d: "dropWhile (\<lambda>c. c = comma) (ascii ''Bob, Jr'') \<noteq> []" by (simp add: ascii_def comma_def)
  show ?thesis
    using display_name_differs [of "([0, 1, 2, 3, 4, 5, 6, 7, 8, 9], ascii ''Bob, Jr\<newline>'')" "[]"] r g d
    by (simp add: ascii_def comma_def newline_def)
qed

end
