(* ===== verification/Spec2Isabelle.thy ===== *)
theory Spec2Isabelle
  imports Restart Diagnostics
begin

text \<open>
  \<^bold>\<open>A verification development of the Voting-System repository.\<close>

  The program is a C voting station. \<open>src/gui2.c\<close> is an SDL front-end whose \<open>main\<close>
  writes the end of the voting window to \<open>voting_time.txt\<close>, loads the voter registry
  (\<open>voter_data.bin\<close>), the ledger (\<open>blockchain_data.bin\<close>) and the candidate roster
  (\<open>candidates.txt\<close>), and then loops: when the window has closed it prints the tally
  of \<open>countVotes\<close> and ends, otherwise it hands every SDL event to the handler of the
  current screen (main menu, register voter, cast vote, candidate management).
  \<open>src/avl.c\<close> holds the registry, an AVL tree of voter identifiers with a voted flag,
  and the two binary files; \<open>src/blockchain.c\<close> holds the hash-chained ledger of vote
  blocks with its Merkle root, the tally, the roster file and the voting window.

  \<^bold>\<open>Theories.\<close> Each component is one theory; definitions keep the names of the C
  functions and follow their control flow, guards and early returns.
  \<^item> \<open>Prelude\<close>: bytes (\<open>8 word\<close>), C strings as NUL-free byte lists, \<open>strcmp\<close>,
    and SHA-256 as an abstract digest function \<open>H\<close> (a parameter of every hashing
    definition).
  \<^item> \<open>Registry\<close> (\<open>avl.c\<close>): \<open>createVoterNode\<close>, the rotations, \<open>insertVoterNode\<close>
    with its four rebalancing cases, \<open>updateVotingStatus\<close>, \<open>findVoter\<close> on the datatype
    \<open>vtree\<close>; the invariant \<open>registry_inv\<close> (AVL balance, exact stored heights, strictly
    sorted C-string keys) and the abstraction \<open>regmap\<close> to a map from identifier to
    voted flag. Lemmas: every operation keeps the invariant and refines the abstract
    insert/lookup/mark (\<open>reg_insert_spec\<close>, \<open>reg_mark_spec\<close>).
  \<^item> \<open>Registry_Snapshot\<close> (\<open>voter_data.bin\<close>): the pre-order save and the
    nested-recursive load, a \<open>function\<close> with its termination proof. Lemmas: the load
    builds the left spine of the saved records, so a restart does not restore a search
    tree.
  \<^item> \<open>Block\<close>, \<open>Merkle\<close>, \<open>Ledger\<close> (\<open>blockchain.c\<close>): blocks as a list, \<open>toString\<close>,
    \<open>castVote\<close> (on the ledger and the file it rewrites), \<open>calculateMerkleRoot\<close>'s two
    in-place loops proved equal to a level-by-level reference, \<open>verifyChain\<close> with its
    per-link verdicts. Undefined behaviour (the 65th block overrunning \<open>temp_tree\<close>, the
    root of an empty ledger) is the error value \<open>merkle_error\<close>.
  \<^item> \<open>Ledger_File\<close> (\<open>blockchain_data.bin\<close>): little-endian \<open>size_t\<close> lengths as
    \<open>64 word\<close>, \<open>saveBlockchainToFile\<close> and the reader loop \<open>loadBlocks\<close> (a \<open>function\<close>
    terminating by the length of the input). Round trip and truncation safety.
  \<^item> \<open>Tally\<close>: \<open>countVotes\<close> with its integrity gate and first-match counting loop,
    refining the abstract count \<open>tally_spec\<close>.
  \<^item> \<open>Roster\<close> (\<open>candidates.txt\<close>): \<open>addCandidate\<close>, \<open>generateUniqueID\<close> over the
    values \<open>rand()\<close> returns, \<open>clearAllCandidates\<close>, and \<open>loadCandidatesFromFile\<close> with its
    \<open>fgets\<close> chunks, \<open>strtok\<close> parsing and break at \<open>MAX_CANDIDATES\<close>.
  \<^item> \<open>Voting_Window\<close> (\<open>voting_time.txt\<close>): \<open>fprintf("%ld")\<close> and \<open>fscanf("%ld")\<close>
    on the file's bytes, \<open>hasTimePassed\<close> and the start-up write \<open>setVotingTime\<close>.
  \<^item> \<open>Gui\<close> (\<open>gui2.c\<close>): the state record \<open>session\<close> (the fields of \<open>GUIState\<close>, both
    \<open>candidateID\<close> buffers, \<open>inputFocus\<close>, the data and files \<open>main\<close> owns, \<open>quit\<close> and the
    printed tally), the SDL events as the datatype \<open>event\<close>, one definition per handler,
    \<open>startSession\<close> for the start-up of \<open>main\<close>, \<open>restart\<close>, and \<open>step\<close>/\<open>run\<close> for
    its loop. A \<open>strcat\<close> past the end of a buffer is the error \<open>BufferOverflow\<close>.
  \<^item> \<open>Session\<close>: the inductive set \<open>reach\<close> of sessions reachable from a fresh
    installation, its invariants \<open>session_inv\<close> and \<open>ui_inv\<close> proved by rule induction over
    per-handler lemmas, and the properties of the whole program: no double vote, a
    verified ledger, the tally at the end of the vote, the buffer bounds, the refusal of
    long identifiers, and progress (a registered voter can always vote).
  \<^item> \<open>Restart\<close>: what a restart keeps and loses: the ledger's blocks but not its root
    (the tally then fails its integrity check) and not the registry's search order (a
    concrete run votes twice for one voter).
  \<^item> \<open>Diagnostics\<close>: the printed output of \<open>hashPrinter\<close>, \<open>printMerkleRoot\<close>,
    \<open>displayTree\<close>, \<open>displayVoterDataFromBinaryFile\<close> and \<open>displayCandidates\<close> as byte
    lists. Lemmas: the hexadecimal digest printout reads back to the digest, and the
    candidate screen shows a name other than the one the tally loads.

  \<^bold>\<open>Bounds and fuel.\<close> No definition uses fuel: every loop of the code is bounded by
  its input (tree size, list length, bytes left in a file) and is a \<open>fun\<close>, \<open>primrec\<close>
  or a \<open>function\<close> with a measure. The constants are those of the source:
  \<open>MAX_MERKLE_TREE_SIZE = 64\<close>, \<open>MAX_CANDIDATES = 8\<close>, \<open>SHA256_DIGEST_LENGTH = 32\<close>, the
  buffer sizes 8, 16, 32, 50 and 256 of the handlers and the loader. Witnesses use
  the identity or a 32-byte toy digest in place of SHA-256; the theorems hold for
  every digest function (with 32-byte outputs where the files store digests).

  \<^bold>\<open>Not modelled.\<close> Rendering (\<open>renderText\<close>, \<open>drawButton\<close>, the \<open>render*\<close>
  screens), SDL and TTF set-up and the delays only draw or wait; the messages of
  \<open>printf\<close> calls inside the modelled operations (and everything sent to \<open>stderr\<close>)
  are not part of their results. Code in comments (the second \<open>main\<close>,
  the second \<open>renderCastVoteScreen\<close>, \<open>alterVote\<close>) is not compiled. The exit button
  pushes an \<open>SDL_QUIT\<close> event; the model sets \<open>quit\<close> directly. Memory allocation is
  taken to succeed in the GUI (the failure path of \<open>castVote\<close> is in \<open>Ledger\<close>).
\<close>

subsection \<open>Across components\<close>

text \<open>What the GUI writes to \<open>blockchain_data.bin\<close> during a session is what
  \<open>initializeBlockchain\<close> reads at the next start: the ledger file of every reachable
  session reloads to exactly its blocks (\<open>Session\<close>'s invariant with \<open>Ledger_File\<close>'s
  round trip), with the indeterminate stack root and an empty Merkle cache.\<close>

theorem session_ledger_persists:
  "reach H s \<Longrightarrow> \<forall>x. length (H x) = SHA256_DIGEST_LENGTH \<Longrightarrow>
   initializeBlockchain (ledger_file s) junk = \<lparr>blocks = blocks (bc s), merkle_root = junk, merkle_tree = []\<rparr>"
  using restart_ledger [OF reach_session_inv, of H s junk 0 "[]"]
  by (simp add: restart_def startSession_def)

end
